theory Spec2Isabelle
  imports
    Main
    "HOL-Library.Word"
    "HOL-Library.Char_ord"
    "HOL-Library.List_Lexorder"
    "HOL-Library.Multiset"
begin

section \<open>Strings and paths\<close>

text \<open>
  Go strings are byte sequences and compare bytewise; \<^typ>\<open>string\<close> with the order of
  \<open>HOL-Library.Char_ord\<close> and \<open>HOL-Library.List_Lexorder\<close> is the same
  order. The functions of Go's standard library that the repository calls
  (\<^verbatim>\<open>strings.HasPrefix\<close>, \<^verbatim>\<open>strings.HasSuffix\<close>, \<^verbatim>\<open>strings.Trim\<close>,
  \<^verbatim>\<open>strings.TrimPrefix\<close>, \<^verbatim>\<open>path.Join\<close>, \<^verbatim>\<open>path.Clean\<close>) are written out
  after their implementation in the standard library.
\<close>

definition HasPrefix :: "string \<Rightarrow> string \<Rightarrow> bool" where
  "HasPrefix s p = (length p \<le> length s \<and> take (length p) s = p)"

definition HasSuffix :: "string \<Rightarrow> string \<Rightarrow> bool" where
  "HasSuffix s suf = (length suf \<le> length s \<and> drop (length s - length suf) s = suf)"

definition TrimPrefix :: "string \<Rightarrow> string \<Rightarrow> string" where
  "TrimPrefix s p = (if HasPrefix s p then drop (length p) s else s)"

text \<open>\<^verbatim>\<open>strings.Trim(s, "/")\<close>: leading and trailing slashes removed.\<close>

definition TrimSlash :: "string \<Rightarrow> string" where
  "TrimSlash s =
     rev (dropWhile (\<lambda>c. c = CHR ''/'') (rev (dropWhile (\<lambda>c. c = CHR ''/'') s)))"

text \<open>The elements of a path: the pieces between slashes, empty pieces included.\<close>

fun splitSlash :: "string \<Rightarrow> string list" where
  "splitSlash [] = [[]]"
| "splitSlash (c # cs) =
     (let rest = splitSlash cs
      in if c = CHR ''/'' then [] # rest else (c # hd rest) # tl rest)"

text \<open>
  One round of the loop of \<^verbatim>\<open>path.Clean\<close>, on the element read: an empty element and
  \<^verbatim>\<open>.\<close> are dropped; \<^verbatim>\<open>..\<close> removes the last element kept when there is one to
  backtrack over, is dropped at the root of a rooted path, and is kept otherwise; any
  other element is kept. The elements kept so far are \<open>out\<close>, in order.
\<close>

definition cleanStep :: "bool \<Rightarrow> string list \<Rightarrow> string \<Rightarrow> string list" where
  "cleanStep rooted out e =
     (if e = [] \<or> e = ''.'' then out
      else if e = ''..'' then
        (if out \<noteq> [] \<and> last out \<noteq> ''..'' then butlast out
         else if \<not> rooted then out @ [''..'']
         else out)
      else out @ [e])"

fun joinSlash :: "string list \<Rightarrow> string" where
  "joinSlash [] = []"
| "joinSlash [e] = e"
| "joinSlash (e # es) = e @ ''/'' @ joinSlash es"

definition Clean :: "string \<Rightarrow> string" where
  "Clean p =
     (if p = [] then ''.''
      else
        let rooted = (hd p = CHR ''/'');
            out = (if rooted then ''/'' else []) @
                  joinSlash (foldl (cleanStep rooted) [] (splitSlash p))
        in if out = [] then ''.'' else out)"

text \<open>
  \<^verbatim>\<open>path.Join\<close>: the non-empty elements separated by slashes (an empty element after
  the first non-empty one still adds its slash), then cleaned; the empty string when
  every element is empty.
\<close>

definition joinBuf :: "string \<Rightarrow> string \<Rightarrow> string" where
  "joinBuf buf e =
     (if buf \<noteq> [] \<or> e \<noteq> [] then (if buf \<noteq> [] then buf @ ''/'' else buf) @ e else buf)"

definition Join :: "string list \<Rightarrow> string" where
  "Join elem = (if concat elem = [] then [] else Clean (foldl joinBuf [] elem))"

section \<open>Timestamps\<close>

text \<open>
  \<^verbatim>\<open>when.UTC()\<close> as the calendar fields that \<^verbatim>\<open>Format\<close> prints. Two instants that
  differ at one-second resolution are ordered as their fields are, read from the year
  down to the second.
\<close>

record utc_time =
  Year :: int
  Month :: nat
  Day :: nat
  Hour :: nat
  Minute :: nat
  Second :: nat

definition valid_time :: "utc_time \<Rightarrow> bool" where
  "valid_time t =
     (0 \<le> Year t \<and> Year t \<le> 9999 \<and> 1 \<le> Month t \<and> Month t \<le> 12 \<and>
      1 \<le> Day t \<and> Day t \<le> 31 \<and> Hour t \<le> 23 \<and> Minute t \<le> 59 \<and> Second t \<le> 59)"

definition time_fields :: "utc_time \<Rightarrow> int list" where
  "time_fields t =
     [Year t, int (Month t), int (Day t), int (Hour t), int (Minute t), int (Second t)]"

definition time_before :: "utc_time \<Rightarrow> utc_time \<Rightarrow> bool" where
  "time_before a b = (time_fields a < time_fields b)"

definition digit :: "nat \<Rightarrow> char" where
  "digit k = char_of (48 + k)"

fun decimal :: "nat \<Rightarrow> string" where
  "decimal n = (if n < 10 then [digit n] else decimal (n div 10) @ [digit (n mod 10)])"

declare decimal.simps [simp del]

text \<open>\<^verbatim>\<open>appendInt\<close> of package time: a sign, zero padding up to the width, the digits.\<close>

definition appendInt :: "int \<Rightarrow> nat \<Rightarrow> string" where
  "appendInt x width =
     (if x < 0 then ''-'' else []) @
     replicate (width - length (decimal (nat \<bar>x\<bar>))) (CHR ''0'') @ decimal (nat \<bar>x\<bar>)"

text \<open>\<^verbatim>\<open>Format("20060102T150405Z")\<close>.\<close>

definition Format :: "utc_time \<Rightarrow> string" where
  "Format t =
     appendInt (Year t) 4 @ appendInt (int (Month t)) 2 @ appendInt (int (Day t)) 2 @ ''T'' @
     appendInt (int (Hour t)) 2 @ appendInt (int (Minute t)) 2 @ appendInt (int (Second t)) 2 @
     ''Z''"

section \<open>Object keys (internal/util/path.go)\<close>

definition BuildObjectKey ::
  "string \<Rightarrow> string \<Rightarrow> string \<Rightarrow> string \<Rightarrow> utc_time \<Rightarrow> string \<Rightarrow> string" where
  "BuildObjectKey prefix dbType dbName backupType when extension =
     (let parts = (if prefix \<noteq> [] then [TrimSlash prefix] else []);
          parts = parts @ [dbType, dbName];
          suffix = Format when @ ''_'' @ backupType;
          suffix = (if extension \<noteq> [] then suffix @ ''.'' @ extension else suffix);
          parts = parts @ [suffix]
      in Join parts)"

definition BuildPrefix :: "string \<Rightarrow> string \<Rightarrow> string \<Rightarrow> string" where
  "BuildPrefix prefix dbType dbName =
     (let parts = (if prefix \<noteq> [] then [TrimSlash prefix] else []);
          parts = (if dbType \<noteq> [] then parts @ [dbType] else parts);
          parts = (if dbName \<noteq> [] then parts @ [dbName] else parts)
      in Join parts)"

section \<open>Manifests and extensions\<close>

definition ManifestSuffix :: string where
  "ManifestSuffix = ''.manifest.json''"

definition ManifestKey :: "string \<Rightarrow> string" where
  "ManifestKey objectKey = objectKey @ ManifestSuffix"

text \<open>
  The flag \<^verbatim>\<open>IsManifest\<close> of an \<^verbatim>\<open>ObjectInfo\<close>, as both storage backends compute it:
  \<^verbatim>\<open>strings.HasSuffix(key, ManifestSuffix)\<close>.
\<close>

definition IsManifestKey :: "string \<Rightarrow> bool" where
  "IsManifestKey key = HasSuffix key ManifestSuffix"

definition TypeNone :: string where "TypeNone = ''none''"
definition TypeGzip :: string where "TypeGzip = ''gzip''"
definition TypeZstd :: string where "TypeZstd = ''zstd''"

definition buildExtension :: "string \<Rightarrow> bool \<Rightarrow> string" where
  "buildExtension compression encryption =
     (let ext = ''backup'';
          ext = (if compression = TypeGzip then ext @ ''.gz''
                 else if compression = TypeZstd then ext @ ''.zst''
                 else ext);
          ext = (if encryption then ext @ ''.enc'' else ext)
      in TrimPrefix ext ''.'')"

text \<open>The elements that the loop of \<^verbatim>\<open>path.Clean\<close> keeps are never empty, never
  \<^verbatim>\<open>.\<close>, and hold no slash.\<close>

definition okElem :: "string \<Rightarrow> bool" where
  "okElem e = (e \<noteq> [] \<and> e \<noteq> ''.'' \<and> CHR ''/'' \<notin> set e)"

text \<open>The last path element that \<^verbatim>\<open>BuildObjectKey\<close> appends.\<close>

definition suffixOf :: "string \<Rightarrow> utc_time \<Rightarrow> string \<Rightarrow> string" where
  "suffixOf backupType when extension =
     Format when @ ''_'' @ backupType @ (if extension \<noteq> [] then ''.'' @ extension else [])"

section \<open>Errors and bytes\<close>

text \<open>
  A Go \<^verbatim>\<open>error\<close> value is modelled by its message. A function that returns
  \<^verbatim>\<open>(value, error)\<close> returns a sum, \<open>Inl\<close> the error; where a claim is about what the
  function hands back beside the error, the pair is kept as a pair.
\<close>

datatype error = Error string

type_synonym byte = "8 word"
type_synonym bytes = "byte list"

section \<open>The configuration envelope (internal/cryptoutil)\<close>

text \<open>The magic tag \<^verbatim>\<open>"DBU1"\<close> as bytes, and the format version.\<close>

definition configMagic :: bytes where
  "configMagic = [0x44, 0x42, 0x55, 0x31]"

definition configVer :: "16 word" where
  "configVer = 1"

text \<open>\<^verbatim>\<open>binary.BigEndian.Uint16(b)\<close>: \<^verbatim>\<open>uint16(b[1]) | uint16(b[0])<<8\<close>.\<close>

definition Uint16 :: "bytes \<Rightarrow> 16 word" where
  "Uint16 b = or (ucast (b ! 1)) (push_bit 8 (ucast (b ! 0)))"

text \<open>
  \<^verbatim>\<open>aes.NewCipher\<close> accepts keys of 16, 24 or 32 bytes; \<^verbatim>\<open>cipher.NewGCM\<close> accepts every
  AES block cipher. The authenticated decryption \<^verbatim>\<open>aead.Open(nil, nonce, payload, nil)\<close>
  is a parameter: it returns Go's pair of a byte slice (\<open>None\<close> for \<^verbatim>\<open>nil\<close>) and an
  error (\<open>None\<close> for \<^verbatim>\<open>nil\<close>).
\<close>

type_synonym aead_open = "bytes \<Rightarrow> bytes \<Rightarrow> bytes \<Rightarrow> bytes option \<times> error option"

definition NewCipher :: "bytes \<Rightarrow> error option" where
  "NewCipher key =
     (if length key = 16 \<or> length key = 24 \<or> length key = 32 then None
      else Some (Error (''crypto/aes: invalid key size '' @ decimal (length key))))"

definition DecryptConfig :: "aead_open \<Rightarrow> bytes \<Rightarrow> bytes \<Rightarrow> bytes option \<times> error option" where
  "DecryptConfig Open ciphertext key =
     (if length ciphertext < 4 + 2 + 12 then (None, Some (Error ''config cipher too short''))
      else if take 4 ciphertext \<noteq> configMagic then (None, Some (Error ''invalid config header''))
      else
        let ver = Uint16 (take 2 (drop 4 ciphertext)) in
        if ver \<noteq> configVer then
          (None, Some (Error (''unsupported config version '' @ decimal (unat ver))))
        else
          let nonce = take 12 (drop 6 ciphertext);
              payload = drop 18 ciphertext
          in case NewCipher key of
               Some err \<Rightarrow> (None, Some err)
             | None \<Rightarrow>
                 (case Open key nonce payload of
                    (plain, Some err) \<Rightarrow> (None, Some err)
                  | (plain, None) \<Rightarrow> (plain, None)))"

section \<open>Storage objects, actions and retention\<close>

text \<open>
  An instant (\<^verbatim>\<open>time.Time\<close> compared with \<^verbatim>\<open>After\<close>) is an integer, the nanoseconds
  since the Unix epoch. Sizes are \<^verbatim>\<open>int64\<close>: 64-bit words, compared as signed numbers,
  whose addition and subtraction wrap around as Go's do. \<^verbatim>\<open>KeepLast\<close> and
  \<^verbatim>\<open>KeepDays\<close> are only compared and negated under a guard, and are integers.
\<close>

type_synonym instant = int

record ObjectInfo =
  Key :: string
  Size :: "64 word"
  Modified :: instant
  IsManifest :: bool

record Retention =
  KeepLast :: int
  KeepDays :: int
  MaxBytes :: "64 word"

text \<open>
  A stream read to its end: the bytes it yields, or the error that ends it. What reaches
  a sink through a writer, once the writer is closed, is a function of the bytes written
  to it.
\<close>

type_synonym reader = "error + bytes"
type_synonym writer = "bytes \<Rightarrow> bytes"

record Manifest =
  Manifest_ID :: string
  Manifest_Key :: string
  Manifest_DatabaseType :: string
  Manifest_Database :: string
  Manifest_BackupType :: string
  Manifest_Compression :: string
  Manifest_Encryption :: bool
  Manifest_CreatedAt :: instant
  Manifest_SizeBytes :: "64 word"
  Manifest_Tables :: "string list"
  Manifest_Collections :: "string list"
  Manifest_ToolVersion :: string

record Event =
  Event_Type :: string
  Event_Message :: string
  Event_Status :: string
  Event_Database :: string
  Event_DBType :: string
  Event_StartedAt :: instant
  Event_EndedAt :: instant
  Event_Duration :: string
  Event_Key :: string
  Event_Error :: string

text \<open>
  What an operation does to its collaborators, in the order of the controlling goroutine:
  the calls on the lock, the adapter, the storage backend, the two pipeline tasks and
  the notifier. \<open>GoSink key r\<close> starts the task that runs \<^verbatim>\<open>Storage.Put(key, pipeReader)\<close>,
  where \<open>r\<close> is what the encoding task writes into the pipe; \<open>GoEncode\<close> starts the
  encoding task; \<open>EgWait\<close> is the join \<^verbatim>\<open>eg.Wait()\<close> on both tasks.
\<close>

datatype action =
    TryLock string
  | Release
  | AdapterValidate
  | StorageExists string
  | AdapterDump
  | ReaderClose
  | DecoderClose
  | GoSink string reader
  | GoEncode
  | DumpWait
  | PipeCloseWithError error
  | EgWait
  | StorageStat string
  | StoragePut string bytes
  | LogWarn string
  | LogInfo string
  | StorageList string
  | StorageDelete string
  | StorageGet string
  | AdapterRestore Manifest
  | RestoreCopy reader
  | RestoreWriterClose
  | RestoreWait
  | Notify Event

text \<open>
  \<^verbatim>\<open>sort.Slice\<close> with the comparison \<^verbatim>\<open>backups[i].Modified.After(backups[j].Modified)\<close>
  is a parameter of the retention pass: Go does not fix the order of objects with equal
  modification times. \<open>sortSlice\<close> is the insertion sort that Go runs on slices of up to
  twelve elements: each element moves left while it is newer than its left neighbour.
\<close>

fun insertNewer :: "ObjectInfo \<Rightarrow> ObjectInfo list \<Rightarrow> ObjectInfo list" where
  "insertNewer x [] = [x]"
| "insertNewer x (y # ys) =
     (if Modified y < Modified x then insertNewer x ys @ [y] else rev (y # ys) @ [x])"

text \<open>\<open>insertNewer x\<close> takes the sorted part reversed, its last element first.\<close>

definition sortSlice :: "ObjectInfo list \<Rightarrow> ObjectInfo list" where
  "sortSlice xs = foldl (\<lambda>sorted x. insertNewer x (rev sorted)) [] xs"

definition newest_first :: "ObjectInfo list \<Rightarrow> bool" where
  "newest_first xs = sorted_wrt (\<lambda>a b. Modified b \<le> Modified a) xs"

text \<open>The contract of \<^verbatim>\<open>sort.Slice\<close>: a permutation in which no later element is newer.\<close>

definition sort_contract :: "(ObjectInfo list \<Rightarrow> ObjectInfo list) \<Rightarrow> bool" where
  "sort_contract srt = (\<forall>xs. mset (srt xs) = mset xs \<and> newest_first (srt xs))"

text \<open>
  \<^verbatim>\<open>time.Now().AddDate(0, 0, -policy.KeepDays)\<close> is calendar arithmetic in the zone of
  the clock and a parameter of the pass; \<open>AddDateUTC\<close> is the function in UTC, where
  every day has 86400 seconds.
\<close>

definition AddDateUTC :: "instant \<Rightarrow> int \<Rightarrow> instant" where
  "AddDateUTC t days = t + days * 86400000000000"

text \<open>One round of the loop \<^verbatim>\<open>for i, obj := range backups\<close>, on the index, the running
  \<^verbatim>\<open>totalSize\<close> and the calls made so far.\<close>

definition retentionStep ::
  "Retention \<Rightarrow> instant \<Rightarrow> nat \<times> 64 word \<times> action list \<Rightarrow> ObjectInfo \<Rightarrow>
   nat \<times> 64 word \<times> action list" where
  "retentionStep policy cutoff st obj =
     (case st of (i, totalSize, calls) \<Rightarrow>
        if KeepLast policy > 0 \<and> int i < KeepLast policy then (Suc i, totalSize, calls)
        else if KeepDays policy > 0 \<and> Modified obj > cutoff then (Suc i, totalSize, calls)
        else if 0 <s MaxBytes policy \<and> totalSize \<le>s MaxBytes policy then
          (Suc i, totalSize, calls)
        else
          (Suc i, totalSize - Size obj,
           calls @ [StorageDelete (Key obj), StorageDelete (ManifestKey (Key obj))]))"

text \<open>
  \<^verbatim>\<open>applyRetention\<close>: the error it returns and the storage calls it makes. \<open>listing\<close> is
  the answer of \<^verbatim>\<open>Storage.List\<close>. The errors of \<^verbatim>\<open>Storage.Delete\<close> are dropped by the
  code, so that its answers do not appear.
\<close>

definition applyRetention ::
  "(ObjectInfo list \<Rightarrow> ObjectInfo list) \<Rightarrow> (instant \<Rightarrow> int \<Rightarrow> instant) \<Rightarrow>
   (string \<Rightarrow> error + ObjectInfo list) \<Rightarrow> instant \<Rightarrow>
   Retention \<Rightarrow> string \<Rightarrow> string \<Rightarrow> string \<Rightarrow> error option \<times> action list" where
  "applyRetention srt AddDate listing now policy prefix dbType dbName =
     (if KeepDays policy = 0 \<and> KeepLast policy = 0 \<and> MaxBytes policy = 0 then (None, [])
      else
        let prefix = BuildPrefix prefix dbType dbName in
        case listing prefix of
          Inl err \<Rightarrow> (Some err, [StorageList prefix])
        | Inr objects \<Rightarrow>
            let backups = filter (\<lambda>obj. \<not> IsManifest obj) objects;
                backups = srt backups;
                cutoff = AddDate now (- KeepDays policy);
                totalSize = foldl (\<lambda>total obj. total + Size obj) 0 backups;
                final = foldl (retentionStep policy cutoff) (0, totalSize, []) backups
            in (None, StorageList prefix # snd (snd final)))"

text \<open>
  The retention algorithm in the words of the specification (section 4.6), on the sorted
  artifacts, with sizes and totals as unbounded integers: the total is the sum of the
  sizes; the artifact at position \<open>i\<close>, with \<open>remaining\<close> the total size still
  accounted for, is retained if \<open>keep_last > 0\<close> and \<open>i < keep_last\<close>, or if
  \<open>keep_days > 0\<close> and it is newer than now minus \<open>keep_days\<close>, or if \<open>max_bytes > 0\<close> and
  \<open>remaining \<le> max_bytes\<close>; otherwise it is deleted with its sibling manifest and its size is
  subtracted from the running total. The result is the keys deleted, in order.
\<close>

definition spec_retained :: "Retention \<Rightarrow> instant \<Rightarrow> nat \<Rightarrow> int \<Rightarrow> ObjectInfo \<Rightarrow> bool" where
  "spec_retained policy cutoff i remaining obj =
     ((KeepLast policy > 0 \<and> int i < KeepLast policy) \<or>
      (KeepDays policy > 0 \<and> cutoff < Modified obj) \<or>
      (sint (MaxBytes policy) > 0 \<and> remaining \<le> sint (MaxBytes policy)))"

fun spec_walk :: "Retention \<Rightarrow> instant \<Rightarrow> nat \<Rightarrow> int \<Rightarrow> ObjectInfo list \<Rightarrow> string list" where
  "spec_walk policy cutoff i remaining [] = []"
| "spec_walk policy cutoff i remaining (obj # objs) =
     (if spec_retained policy cutoff i remaining obj
      then spec_walk policy cutoff (Suc i) remaining objs
      else Key obj # ManifestKey (Key obj) #
           spec_walk policy cutoff (Suc i) (remaining - sint (Size obj)) objs)"

definition total_size :: "ObjectInfo list \<Rightarrow> int" where
  "total_size objs = sum_list (map (\<lambda>obj. sint (Size obj)) objs)"

definition spec_retention :: "Retention \<Rightarrow> instant \<Rightarrow> ObjectInfo list \<Rightarrow> string list" where
  "spec_retention policy cutoff artifacts =
     (if KeepLast policy = 0 \<and> KeepDays policy = 0 \<and> sint (MaxBytes policy) = 0 then []
      else spec_walk policy cutoff 0 (total_size artifacts) artifacts)"

text \<open>
  The listings on which 64-bit arithmetic does not wrap: every size is at least zero and
  the sizes add up to less than \<open>2 ^ 63\<close>.
\<close>

definition sizes_fit :: "ObjectInfo list \<Rightarrow> bool" where
  "sizes_fit objs = (list_all (\<lambda>obj. 0 \<le> sint (Size obj)) objs \<and> total_size objs < 2 ^ 63)"

section \<open>Configuration and collaborators\<close>

text \<open>The fields of \<^verbatim>\<open>config.Config\<close> that \<^verbatim>\<open>internal/app\<close> reads, named by their path.\<close>

record Config =
  Global_LockFile :: string
  Schedule_WindowStart :: string
  Schedule_WindowEnd :: string
  Schedule_Timezone :: string
  Database_Type :: string
  Database_Database :: string
  Backup_Type :: string
  Backup_Compression :: string
  Backup_Encryption :: bool
  Backup_EncryptionKey :: string
  Backup_Idempotent :: bool
  Backup_Tables :: "string list"
  Backup_Collections :: "string list"
  Backup_RetentionPolicy :: Retention
  Restore_DryRun :: bool
  Storage_Prefix :: string

record Capabilities =
  Incremental :: bool
  Differential :: bool
  TableRestore :: bool
  CollectionRestore :: bool

record BackupResult =
  Result_Manifest :: Manifest
  Result_Key :: string

text \<open>
  What a restore stream answers: the error of writing a stream into \<^verbatim>\<open>Writer\<close>, of
  \<^verbatim>\<open>Writer.Close\<close> and of \<^verbatim>\<open>Wait\<close>.
\<close>

record RestoreStream =
  Stream_Write :: "bytes \<Rightarrow> error option"
  Stream_Close :: "error option"
  Stream_Wait :: "error option"

text \<open>
  The answers of everything outside \<^verbatim>\<open>internal/app\<close>: the lock file, the clock, the
  database adapter, the storage backend, the libraries for JSON, key decoding,
  compression and encryption, the scheduler of the two pipeline tasks, and whether a
  notifier is configured. A dump stream is what its \<^verbatim>\<open>Reader\<close> yields and what its
  \<^verbatim>\<open>Wait\<close> returns. A compressing or encrypting writer is the function from the bytes
  written to it to the bytes it has passed on once closed; a decompressing or decrypting
  reader is made from the reader below it, or fails to be made.
\<close>

record env =
  os_TempDirLock :: string
  flock_TryLock :: "string \<Rightarrow> error + bool"
  time_LoadLocation :: "string \<Rightarrow> error option"
  clock_wall :: "string \<Rightarrow> nat \<times> nat"
  time_Date :: "string \<Rightarrow> nat \<times> nat \<Rightarrow> instant"
  clock_start :: instant
  clock_key :: utc_time
  clock_manifest_id :: int
  clock_created :: instant
  clock_retention :: instant
  clock_end :: instant
  clock_duration :: string
  adapter_Name :: string
  adapter_Validate :: "error option"
  adapter_Capabilities :: Capabilities
  adapter_Dump :: "error + reader \<times> error option"
  adapter_Restore :: "Manifest \<Rightarrow> error + RestoreStream"
  storage_Exists :: "string \<Rightarrow> error + bool"
  storage_Put :: "string \<Rightarrow> reader \<Rightarrow> error option"
  storage_Get :: "string \<Rightarrow> error + reader"
  storage_Stat :: "string \<Rightarrow> error + ObjectInfo"
  storage_List :: "string \<Rightarrow> error + ObjectInfo list"
  sort_Slice :: "ObjectInfo list \<Rightarrow> ObjectInfo list"
  time_AddDate :: "instant \<Rightarrow> int \<Rightarrow> instant"
  json_Marshal :: "Manifest \<Rightarrow> error + bytes"
  json_Decode :: "reader \<Rightarrow> error + Manifest"
  strings_TrimSpace :: "string \<Rightarrow> string"
  base64_Decode :: "string \<Rightarrow> error + bytes"
  hex_Decode :: "string \<Rightarrow> error + bytes"
  gzip_NewWriter :: "bytes \<Rightarrow> bytes"
  zstd_NewWriter :: "error + (bytes \<Rightarrow> bytes)"
  sio_EncryptWriter :: "bytes \<Rightarrow> error + (bytes \<Rightarrow> bytes)"
  gzip_NewReader :: "reader \<Rightarrow> error + reader"
  zstd_NewReader :: "reader \<Rightarrow> error + reader"
  sio_DecryptReader :: "bytes \<Rightarrow> reader \<Rightarrow> error + reader"
  sched_sink_first :: bool
  sched_pipe_closed :: bool
  notifier_present :: bool
  version_Version :: string

definition message :: "error \<Rightarrow> string" where
  "message e = (case e of Error m \<Rightarrow> m)"

section \<open>The run lock (internal/lock)\<close>

definition Acquire :: "env \<Rightarrow> string \<Rightarrow> (error + string) \<times> action list" where
  "Acquire env path =
     (let path = (if path = [] then os_TempDirLock env else path) in
      case flock_TryLock env path of
        Inl err \<Rightarrow> (Inl err, [TryLock path])
      | Inr ok \<Rightarrow>
          if \<not> ok then
            (Inl (Error (''another backup/restore is already running (lock: '' @ path @ '')'')),
             [TryLock path])
          else (Inr path, [TryLock path]))"

section \<open>The backup window (internal/util)\<close>

definition isDigit :: "char \<Rightarrow> bool" where
  "isDigit c = (c \<in> set ''0123456789'')"

definition digitVal :: "char \<Rightarrow> nat" where
  "digitVal c = of_char c - 48"

text \<open>
  \<^verbatim>\<open>quote\<close> of package time: the string between double quotes, with a backslash
  before a double quote or a backslash, and every byte below \<^verbatim>\<open>0x20\<close> or from
  \<^verbatim>\<open>0x80\<close> on written as \<^verbatim>\<open>\x\<close> and its two hexadecimal digits.
\<close>

definition hexDigit :: "nat \<Rightarrow> char" where
  "hexDigit k = ''0123456789abcdef'' ! k"

definition quote :: "string \<Rightarrow> string" where
  "quote s =
     CHR 0x22 #
     concat (map (\<lambda>c. if 128 \<le> (of_char c :: nat) \<or> (of_char c :: nat) < 32 then
                          [CHR 0x5C, CHR ''x'', hexDigit (of_char c div 16),
                           hexDigit (of_char c mod 16)]
                        else if c = CHR 0x22 \<or> c = CHR 0x5C then [CHR 0x5C, c]
                        else [c]) s) @
     [CHR 0x22]"

text \<open>The errors of \<^verbatim>\<open>time.Parse\<close> for the layout \<^verbatim>\<open>15:04\<close>, with their texts.\<close>

definition parseError :: "string \<Rightarrow> string \<Rightarrow> string \<Rightarrow> error" where
  "parseError v valueElem layoutElem =
     Error (''parsing time '' @ quote v @ '' as '' @ quote ''15:04'' @ '': cannot parse '' @
            quote valueElem @ '' as '' @ quote layoutElem)"

definition rangeError :: "string \<Rightarrow> string \<Rightarrow> error" where
  "rangeError v field = Error (''parsing time '' @ quote v @ '': '' @ field @ '' out of range'')"

text \<open>
  \<^verbatim>\<open>time.ParseInLocation("15:04", v, loc)\<close>, to the hour and the minute: an hour of one or
  two digits below 24, a colon, a minute of exactly two digits below 60, and nothing after.
\<close>

definition parseClock :: "string \<Rightarrow> error + nat \<times> nat" where
  "parseClock v =
     (case v of
        [] \<Rightarrow> Inl (parseError v v ''15'')
      | h1 # r1 \<Rightarrow>
          if \<not> isDigit h1 then Inl (parseError v v ''15'')
          else
            let hr = (case r1 of
                        [] \<Rightarrow> (digitVal h1, r1)
                      | h2 # r2 \<Rightarrow>
                          if isDigit h2 then (10 * digitVal h1 + digitVal h2, r2)
                          else (digitVal h1, r1))
            in if 24 \<le> fst hr then Inl (rangeError v ''hour'')
               else
                 (case snd hr of
                    [] \<Rightarrow> Inl (parseError v [] '':'')
                  | c # r2 \<Rightarrow>
                      if c \<noteq> CHR '':'' then Inl (parseError v (snd hr) '':'')
                      else
                        (case r2 of
                           m1 # m2 # r3 \<Rightarrow>
                             if \<not> (isDigit m1 \<and> isDigit m2) then Inl (parseError v r2 ''04'')
                             else if 60 \<le> 10 * digitVal m1 + digitVal m2 then
                               Inl (rangeError v ''minute'')
                             else if r3 \<noteq> [] then
                               Inl (Error (''parsing time '' @ quote v @ '': extra text: '' @
                                           quote r3))
                             else Inr (fst hr, 10 * digitVal m1 + digitVal m2)
                         | _ \<Rightarrow> Inl (parseError v r2 ''04''))))"

text \<open>
  \<^verbatim>\<open>InWindow\<close>. \<open>clock_wall env tz\<close> is the hour and minute of \<^verbatim>\<open>time.Now()\<close> in the
  zone \<open>tz\<close>, the zone of the clock when \<open>tz\<close> is empty, and \<open>time_Date env tz (h, m)\<close> is
  the instant \<^verbatim>\<open>time.Date(year, month, day, h, m, 0, 0, loc)\<close> on the day of
  \<^verbatim>\<open>time.Now()\<close> in that zone, as Go normalises it (an hour that the day skips for
  daylight saving is moved). \<^verbatim>\<open>current\<close>, \<^verbatim>\<open>startToday\<close> and \<^verbatim>\<open>endToday\<close> are
  such instants, and \<^verbatim>\<open>Before\<close> and \<^verbatim>\<open>After\<close> compare them.
\<close>

definition InWindow :: "env \<Rightarrow> string \<Rightarrow> string \<Rightarrow> string \<Rightarrow> error + bool" where
  "InWindow env start end tz =
     (if start = [] \<and> end = [] then Inr True
      else
        case (if tz \<noteq> [] then time_LoadLocation env tz else None) of
          Some err \<Rightarrow> Inl (Error (''invalid timezone: '' @ message err))
        | None \<Rightarrow>
            (case (if start = [] then Inr (0, 0) else parseClock start) of
               Inl err \<Rightarrow> Inl (Error (''invalid window start: '' @ message err))
             | Inr startTime \<Rightarrow>
                 (case (if end = [] then Inr (0, 0) else parseClock end) of
                    Inl err \<Rightarrow> Inl (Error (''invalid window end: '' @ message err))
                  | Inr endTime \<Rightarrow>
                      let current = time_Date env tz (clock_wall env tz);
                          startToday = time_Date env tz startTime;
                          endToday = time_Date env tz endTime
                      in if start \<noteq> [] \<and> end = [] then Inr (\<not> current < startToday)
                         else if start = [] \<and> end \<noteq> [] then Inr (\<not> endToday < current)
                         else if startToday < endToday then
                           Inr (\<not> current < startToday \<and> \<not> endToday < current)
                         else Inr (\<not> current < startToday \<or> \<not> endToday < current))))"

section \<open>Keys and stream transforms (internal/cryptoutil, internal/compress)\<close>

definition ParseKey :: "env \<Rightarrow> string \<Rightarrow> error + bytes" where
  "ParseKey env key =
     (if key = [] then Inl (Error ''encryption key is empty'')
      else
        let trimmed = strings_TrimSpace env key;
            decoded =
              (if HasPrefix trimmed ''base64:'' then
                 base64_Decode env (TrimPrefix trimmed ''base64:'')
               else if HasPrefix trimmed ''hex:'' then hex_Decode env (TrimPrefix trimmed ''hex:'')
               else
                 (case base64_Decode env trimmed of
                    Inl err \<Rightarrow> hex_Decode env trimmed
                  | Inr data \<Rightarrow> Inr data))
        in case decoded of
             Inl err \<Rightarrow> Inl (Error (''decode key: '' @ message err))
           | Inr data \<Rightarrow>
               if length data \<noteq> 32 then
                 Inl (Error (''invalid key length: '' @ decimal (length data) @
                             '' (expected 32 bytes)''))
               else Inr data)"

definition WrapWriter :: "env \<Rightarrow> string \<Rightarrow> writer \<Rightarrow> error + writer" where
  "WrapWriter env kind w =
     (if kind = [] \<or> kind = TypeNone then Inr w
      else if kind = TypeGzip then Inr (\<lambda>written. w (gzip_NewWriter env written))
      else if kind = TypeZstd then
        (case zstd_NewWriter env of
           Inl err \<Rightarrow> Inl err
         | Inr zstd \<Rightarrow> Inr (\<lambda>written. w (zstd written)))
      else Inl (Error (''unsupported compression: '' @ kind)))"

definition WrapReader :: "env \<Rightarrow> string \<Rightarrow> reader \<Rightarrow> error + reader" where
  "WrapReader env kind r =
     (if kind = [] \<or> kind = TypeNone then Inr r
      else if kind = TypeGzip then gzip_NewReader env r
      else if kind = TypeZstd then zstd_NewReader env r
      else Inl (Error (''unsupported compression: '' @ kind)))"

definition EncryptWriter :: "env \<Rightarrow> writer \<Rightarrow> bytes \<Rightarrow> error + writer" where
  "EncryptWriter env w key =
     (case sio_EncryptWriter env key of
        Inl err \<Rightarrow> Inl err
      | Inr seal \<Rightarrow> Inr (\<lambda>written. w (seal written)))"

definition DecryptReader :: "env \<Rightarrow> reader \<Rightarrow> bytes \<Rightarrow> error + reader" where
  "DecryptReader env r key = sio_DecryptReader env key r"

section \<open>Backup (internal/app)\<close>

definition EqualFold :: "string \<Rightarrow> string \<Rightarrow> bool" where
  "EqualFold s t =
     (let lower = (\<lambda>c. case map_of (zip ''ABCDEFGHIJKLMNOPQRSTUVWXYZ''
                                        ''abcdefghijklmnopqrstuvwxyz'') c of
                          Some l \<Rightarrow> l | None \<Rightarrow> c)
      in map lower s = map lower t)"

definition statusFromErr :: "error option \<Rightarrow> string" where
  "statusFromErr err = (if err = None then ''success'' else ''failed'')"

definition itoa :: "int \<Rightarrow> string" where
  "itoa n = (if n < 0 then ''-'' else []) @ decimal (nat \<bar>n\<bar>)"

text \<open>
  The encoding task of \<^verbatim>\<open>Backup\<close>: the writer starts as the pipe, is wrapped by the
  compressing writer when a compression is set, and the result is wrapped by the
  encrypting writer when encryption is set; the dump is copied into the outermost writer
  and the writers are closed from the outermost to the pipe. The result is what the task
  writes into the pipe, or the error that ends it.
\<close>

definition encodeTask :: "env \<Rightarrow> Config \<Rightarrow> reader \<Rightarrow> reader" where
  "encodeTask env cfg dump =
     (let writer = (\<lambda>written. written) in
      case (if Backup_Compression cfg \<noteq> [] \<and> Backup_Compression cfg \<noteq> TypeNone
            then WrapWriter env (Backup_Compression cfg) writer else Inr writer) of
        Inl err \<Rightarrow> Inl err
      | Inr writer \<Rightarrow>
          (case (if Backup_Encryption cfg then
                   (case ParseKey env (Backup_EncryptionKey cfg) of
                      Inl err \<Rightarrow> Inl err
                    | Inr keyBytes \<Rightarrow> EncryptWriter env writer keyBytes)
                 else Inr writer) of
             Inl err \<Rightarrow> Inl err
           | Inr writer \<Rightarrow>
               (case dump of
                  Inl err \<Rightarrow> Inl err
                | Inr data \<Rightarrow> Inr (writer data))))"

text \<open>
  The join \<^verbatim>\<open>eg.Wait()\<close> returns the first error of the two tasks. The sink task returns
  the answer of \<^verbatim>\<open>Storage.Put\<close>. The encoding task returns its own error; when only the
  sink fails, the encoding task either has finished or fails on the closed pipe, and the
  scheduler decides which, as it decides which of two errors is the first.
\<close>

definition ErrClosedPipe :: error where
  "ErrClosedPipe = Error ''io: read/write on closed pipe''"

definition egWait :: "env \<Rightarrow> string \<Rightarrow> reader \<Rightarrow> error option" where
  "egWait env key pipe =
     (let sinkErr = storage_Put env key pipe;
          encodeErr =
            (case pipe of
               Inl err \<Rightarrow> Some err
             | Inr written \<Rightarrow>
                 if sinkErr \<noteq> None \<and> sched_pipe_closed env then Some ErrClosedPipe else None)
      in case sinkErr of
           None \<Rightarrow> encodeErr
         | Some e1 \<Rightarrow>
             (case encodeErr of
                None \<Rightarrow> Some e1
              | Some e2 \<Rightarrow> if sched_sink_first env then Some e1 else Some e2))"

definition writeManifest :: "env \<Rightarrow> Manifest \<Rightarrow> error option \<times> action list" where
  "writeManifest env manifest =
     (case json_Marshal env manifest of
        Inl err \<Rightarrow> (Some err, [])
      | Inr payload \<Rightarrow>
          let key = ManifestKey (Manifest_Key manifest) in
          (storage_Put env key (Inr payload), [StoragePut key payload]))"

text \<open>
  The parts of \<^verbatim>\<open>Backup\<close>, from the last to the first. Each returns what \<^verbatim>\<open>Backup\<close>
  returns, the variable \<^verbatim>\<open>opErr\<close> that the deferred notification reads, and the actions
  taken. \<open>backupFinish\<close> runs after the join succeeded.
\<close>

definition backupFinish ::
  "env \<Rightarrow> Config \<Rightarrow> string \<Rightarrow> (error + BackupResult) \<times> error option \<times> action list" where
  "backupFinish env cfg key =
     (case storage_Stat env key of
        Inl err \<Rightarrow> (Inl err, Some err, [StorageStat key])
      | Inr stat \<Rightarrow>
          let manifest =
                \<lparr>Manifest_ID = Database_Database cfg @ ''-'' @ itoa (clock_manifest_id env),
                 Manifest_Key = key,
                 Manifest_DatabaseType = Database_Type cfg,
                 Manifest_Database = Database_Database cfg,
                 Manifest_BackupType = Backup_Type cfg,
                 Manifest_Compression = Backup_Compression cfg,
                 Manifest_Encryption = Backup_Encryption cfg,
                 Manifest_CreatedAt = clock_created env,
                 Manifest_SizeBytes = Size stat,
                 Manifest_Tables = Backup_Tables cfg,
                 Manifest_Collections = Backup_Collections cfg,
                 Manifest_ToolVersion = version_Version env\<rparr>;
              written = writeManifest env manifest;
              warned = (case fst written of
                          Some err \<Rightarrow> [LogWarn ''failed to write manifest'']
                        | None \<Rightarrow> []);
              retention =
                applyRetention (sort_Slice env) (time_AddDate env) (storage_List env)
                  (clock_retention env) (Backup_RetentionPolicy cfg) (Storage_Prefix cfg)
                  (Database_Type cfg) (Database_Database cfg)
          in (Inr \<lparr>Result_Manifest = manifest, Result_Key = key\<rparr>, None,
              [StorageStat key] @ snd written @ warned @ snd retention))"

text \<open>
  \<open>backupStream\<close> runs once the dump stream is open: both tasks are started, then
  \<^verbatim>\<open>dumpStream.Wait()\<close> is called, and then the tasks are joined.
\<close>

definition backupStream ::
  "env \<Rightarrow> Config \<Rightarrow> string \<Rightarrow> reader \<Rightarrow> error option \<Rightarrow>
   (error + BackupResult) \<times> error option \<times> action list" where
  "backupStream env cfg key dump wait =
     (let pipe = encodeTask env cfg dump;
          started = [GoSink key pipe, GoEncode, DumpWait]
      in case wait of
           Some err \<Rightarrow> (Inl err, Some err, started @ [PipeCloseWithError err, EgWait])
         | None \<Rightarrow>
             (case egWait env key pipe of
                Some err \<Rightarrow> (Inl err, Some err, started @ [EgWait])
              | None \<Rightarrow>
                  let finish = backupFinish env cfg key in
                  (fst finish, fst (snd finish), started @ [EgWait] @ snd (snd finish))))"

text \<open>\<open>backupKeyed\<close> runs once the key is built: the idempotency gate and the dump.\<close>

definition backupKeyed ::
  "env \<Rightarrow> Config \<Rightarrow> string \<Rightarrow> (error + BackupResult) \<times> error option \<times> action list" where
  "backupKeyed env cfg key =
     (let gate =
            (if Backup_Idempotent cfg then
               (case storage_Exists env key of
                  Inl err \<Rightarrow> (Some err, [StorageExists key])
                | Inr exists \<Rightarrow>
                    if exists then
                      (Some (Error (''backup already exists: '' @ key)), [StorageExists key])
                    else (None, [StorageExists key]))
             else (None, []))
      in case fst gate of
           Some err \<Rightarrow> (Inl err, Some err, snd gate)
         | None \<Rightarrow>
             (case adapter_Dump env of
                Inl err \<Rightarrow> (Inl err, Some err, snd gate @ [AdapterDump])
              | Inr dumpStream \<Rightarrow>
                  let stream = backupStream env cfg key (fst dumpStream) (snd dumpStream) in
                  (fst stream, fst (snd stream),
                   snd gate @ [AdapterDump] @ snd (snd stream) @ [ReaderClose])))"

text \<open>
  \<open>backupLocked\<close> runs while the lock is held; it also returns the variable \<^verbatim>\<open>key\<close>,
  empty until the key is built.
\<close>

definition backupLocked ::
  "env \<Rightarrow> Config \<Rightarrow> (error + BackupResult) \<times> error option \<times> string \<times> action list" where
  "backupLocked env cfg =
     (case InWindow env (Schedule_WindowStart cfg) (Schedule_WindowEnd cfg)
             (Schedule_Timezone cfg) of
        Inl err \<Rightarrow> (Inl err, None, [], [])
      | Inr ok \<Rightarrow>
          if \<not> ok then
            (Inl (Error ''current time is outside configured backup window''),
             Some (Error ''current time is outside configured backup window''), [], [])
          else
            (case adapter_Validate env of
               Some err \<Rightarrow> (Inl err, Some err, [], [AdapterValidate])
             | None \<Rightarrow>
                 let caps = adapter_Capabilities env in
                 if EqualFold (Backup_Type cfg) ''incremental'' \<and> \<not> Incremental caps then
                   (Inl (Error (''incremental backups are not supported for '' @ adapter_Name env)),
                    Some (Error (''incremental backups are not supported for '' @ adapter_Name env)),
                    [], [AdapterValidate])
                 else if EqualFold (Backup_Type cfg) ''differential'' \<and> \<not> Differential caps then
                   (Inl (Error (''differential backups are not supported for '' @ adapter_Name env)),
                    Some (Error (''differential backups are not supported for '' @ adapter_Name env)),
                    [], [AdapterValidate])
                 else if Backup_Encryption cfg \<and> Backup_EncryptionKey cfg = [] then
                   (Inl (Error ''encryption is enabled but encryption_key is empty''),
                    Some (Error ''encryption is enabled but encryption_key is empty''),
                    [], [AdapterValidate])
                 else
                   let ext = buildExtension (Backup_Compression cfg) (Backup_Encryption cfg);
                       key = BuildObjectKey (Storage_Prefix cfg) (Database_Type cfg)
                               (Database_Database cfg) (Backup_Type cfg) (clock_key env) ext;
                       keyed = backupKeyed env cfg key
                   in (fst keyed, fst (snd keyed), key, AdapterValidate # snd (snd keyed))))"

text \<open>
  The event of the deferred notification, from \<^verbatim>\<open>opErr\<close> and \<^verbatim>\<open>key\<close> as they are when
  the operation returns.
\<close>

definition notification :: "env \<Rightarrow> Config \<Rightarrow> string \<Rightarrow> error option \<Rightarrow> string \<Rightarrow> Event" where
  "notification env cfg kind opErr key =
     \<lparr>Event_Type = kind,
      Event_Message = kind @ '' '' @ Database_Database cfg,
      Event_Status = statusFromErr opErr,
      Event_Database = Database_Database cfg,
      Event_DBType = Database_Type cfg,
      Event_StartedAt = clock_start env,
      Event_EndedAt = clock_end env,
      Event_Duration = clock_duration env,
      Event_Key = key,
      Event_Error = (case opErr of None \<Rightarrow> [] | Some err \<Rightarrow> message err)\<rparr>"

text \<open>
  \<^verbatim>\<open>Backup\<close>: what it returns and the actions it takes. The deferred calls run last, in
  reverse order: the lock is released, then the notification is sent when a notifier is
  configured.
\<close>

definition Backup :: "env \<Rightarrow> Config \<Rightarrow> (error + BackupResult) \<times> action list" where
  "Backup env cfg =
     (let guard = Acquire env (Global_LockFile cfg);
          run =
            (case fst guard of
               Inl err \<Rightarrow> (Inl err, Some err, [], snd guard)
             | Inr held \<Rightarrow>
                 let locked = backupLocked env cfg in
                 (fst locked, fst (snd locked), fst (snd (snd locked)),
                  snd guard @ snd (snd (snd locked)) @ [Release]))
      in case run of
           (ret, opErr, key, actions) \<Rightarrow>
             (ret,
              actions @
              (if notifier_present env
               then [Notify (notification env cfg ''backup'' opErr key)] else [])))"

section \<open>Restore (internal/app)\<close>

text \<open>The zero value \<^verbatim>\<open>storage.Manifest{}\<close>.\<close>

definition emptyManifest :: Manifest where
  "emptyManifest =
     \<lparr>Manifest_ID = [], Manifest_Key = [], Manifest_DatabaseType = [], Manifest_Database = [],
      Manifest_BackupType = [], Manifest_Compression = [], Manifest_Encryption = False,
      Manifest_CreatedAt = 0, Manifest_SizeBytes = 0, Manifest_Tables = [],
      Manifest_Collections = [], Manifest_ToolVersion = []\<rparr>"

definition readManifest :: "env \<Rightarrow> string \<Rightarrow> (Manifest \<times> error option) \<times> action list" where
  "readManifest env key =
     (let manifestKey = ManifestKey key in
      case storage_Get env manifestKey of
        Inl err \<Rightarrow> ((emptyManifest, Some err), [StorageGet manifestKey])
      | Inr reader \<Rightarrow>
          (case json_Decode env reader of
             Inl err \<Rightarrow> ((emptyManifest, Some err), [StorageGet manifestKey, ReaderClose])
           | Inr manifest \<Rightarrow> ((manifest, None), [StorageGet manifestKey, ReaderClose])))"

text \<open>
  The read side of \<^verbatim>\<open>Restore\<close>: the stored stream is wrapped by the decrypting reader
  when the manifest or the configuration says encryption, and the result is wrapped by
  the decompressing reader of the manifest's compression, or the configuration's when the
  manifest names none.
\<close>

definition decodeChain :: "env \<Rightarrow> Config \<Rightarrow> Manifest \<Rightarrow> reader \<Rightarrow> error + reader" where
  "decodeChain env cfg manifest reader =
     (case (if Manifest_Encryption manifest \<or> Backup_Encryption cfg then
              (if Backup_EncryptionKey cfg = [] then
                 Inl (Error ''encryption key is required to restore encrypted backup'')
               else
                 (case ParseKey env (Backup_EncryptionKey cfg) of
                    Inl err \<Rightarrow> Inl err
                  | Inr keyBytes \<Rightarrow> DecryptReader env reader keyBytes))
            else Inr reader) of
        Inl err \<Rightarrow> Inl err
      | Inr payload \<Rightarrow>
          let compression =
                (if Manifest_Compression manifest = [] then Backup_Compression cfg
                 else Manifest_Compression manifest)
          in WrapReader env compression payload)"

text \<open>
  \<open>restoreStream\<close> runs once the decoding readers are made: the adapter opens the restore
  stream, the decoded stream is copied into it, and it is closed and awaited.
\<close>

definition restoreStream ::
  "env \<Rightarrow> Manifest \<Rightarrow> reader \<Rightarrow> error option \<times> action list" where
  "restoreStream env manifest compReader =
     (case adapter_Restore env manifest of
        Inl err \<Rightarrow> (Some err, [AdapterRestore manifest])
      | Inr stream \<Rightarrow>
          (case (case compReader of
                   Inl err \<Rightarrow> Some err
                 | Inr decoded \<Rightarrow> Stream_Write stream decoded) of
             Some err \<Rightarrow> (Some err, [AdapterRestore manifest, RestoreCopy compReader])
           | None \<Rightarrow>
               (case Stream_Close stream of
                  Some err \<Rightarrow>
                    (Some err, [AdapterRestore manifest, RestoreCopy compReader, RestoreWriterClose])
                | None \<Rightarrow>
                    (Stream_Wait stream,
                     [AdapterRestore manifest, RestoreCopy compReader, RestoreWriterClose,
                      RestoreWait]))))"

text \<open>
  \<open>restoreLocked\<close> runs while the lock is held, and returns what \<^verbatim>\<open>Restore\<close> returns,
  the variable \<^verbatim>\<open>opErr\<close> and the actions taken. Every error set here is also returned.
\<close>

definition restoreLocked ::
  "env \<Rightarrow> Config \<Rightarrow> string \<Rightarrow> error option \<times> error option \<times> action list" where
  "restoreLocked env cfg key =
     (case adapter_Validate env of
        Some err \<Rightarrow> (Some err, Some err, [AdapterValidate])
      | None \<Rightarrow>
          let loaded = readManifest env key;
              manifest = fst (fst loaded)
          in if Restore_DryRun cfg then
               (None, None, AdapterValidate # snd loaded @ [LogInfo ''dry run restore''])
             else
               (case storage_Get env key of
                  Inl err \<Rightarrow> (Some err, Some err, AdapterValidate # snd loaded @ [StorageGet key])
                | Inr reader \<Rightarrow>
                    (case decodeChain env cfg manifest reader of
                       Inl err \<Rightarrow>
                         (Some err, Some err,
                          AdapterValidate # snd loaded @ [StorageGet key, ReaderClose])
                     | Inr compReader \<Rightarrow>
                         let stream = restoreStream env manifest compReader in
                         (fst stream, fst stream,
                          AdapterValidate # snd loaded @ [StorageGet key] @ snd stream @
                          [DecoderClose, ReaderClose]))))"

definition Restore :: "env \<Rightarrow> Config \<Rightarrow> string \<Rightarrow> error option \<times> action list" where
  "Restore env cfg key =
     (let guard = Acquire env (Global_LockFile cfg);
          run =
            (case fst guard of
               Inl err \<Rightarrow> (Some err, Some err, snd guard)
             | Inr held \<Rightarrow>
                 let locked = restoreLocked env cfg key in
                 (fst locked, fst (snd locked), snd guard @ snd (snd locked) @ [Release]))
      in case run of
           (ret, opErr, actions) \<Rightarrow>
             (ret,
              actions @
              (if notifier_present env
               then [Notify (notification env cfg ''restore'' opErr key)] else [])))"

text \<open>The key that \<^verbatim>\<open>Backup\<close> builds once its checks have passed.\<close>

definition backupKey :: "env \<Rightarrow> Config \<Rightarrow> string" where
  "backupKey env cfg =
     BuildObjectKey (Storage_Prefix cfg) (Database_Type cfg) (Database_Database cfg)
       (Backup_Type cfg) (clock_key env)
       (buildExtension (Backup_Compression cfg) (Backup_Encryption cfg))"

text \<open>The first occurrence of \<open>a\<close> comes before the first occurrence of \<open>b\<close>.\<close>

definition happens_before :: "action \<Rightarrow> action \<Rightarrow> action list \<Rightarrow> bool" where
  "happens_before a b actions = (a \<in> set (takeWhile (\<lambda>x. x \<noteq> b) actions))"

definition is_notify :: "action \<Rightarrow> bool" where
  "is_notify a = (case a of Notify event \<Rightarrow> True | _ \<Rightarrow> False)"



definition is_write :: "action \<Rightarrow> bool" where
  "is_write a =
     (case a of
        GoSink key r \<Rightarrow> True
      | StoragePut key payload \<Rightarrow> True
      | StorageDelete key \<Rightarrow> True
      | _ \<Rightarrow> False)"

section \<open>Stand-ins for the collaborators, used in the examples\<close>

text \<open>
  An authenticated decryption for the examples: the payload is the plaintext followed by
  one check byte, the sum of the key, the nonce and the plaintext; opening fails when the
  check byte is wrong.
\<close>

definition testOpen :: aead_open where
  "testOpen key nonce payload =
     (if payload \<noteq> [] \<and> last payload = sum_list (key @ nonce @ butlast payload)
      then (Some (butlast payload), None)
      else (None, Some (Error ''cipher: message authentication failed'')))"

text \<open>
  Stream codecs for the examples. Each satisfies the contract of its library, that reading
  back what was written yields the bytes written, and each rejects a stream that does not
  start with its own format tag, as gzip (\<^verbatim>\<open>1f 8b\<close>), zstd (\<^verbatim>\<open>28 b5 2f fd\<close>) and DARE
  (version byte \<^verbatim>\<open>20\<close>) do.
\<close>

definition testGzip :: "bytes \<Rightarrow> bytes" where
  "testGzip written = [0x1f, 0x8b] @ written"

definition testGunzip :: "reader \<Rightarrow> error + reader" where
  "testGunzip r =
     (case r of
        Inl err \<Rightarrow> Inl err
      | Inr stored \<Rightarrow>
          if take 2 stored = [0x1f, 0x8b] then Inr (Inr (drop 2 stored))
          else Inl (Error ''gzip: invalid header''))"

definition testZstd :: "bytes \<Rightarrow> bytes" where
  "testZstd written = [0x28, 0xb5, 0x2f, 0xfd] @ written"

definition testUnzstd :: "reader \<Rightarrow> error + reader" where
  "testUnzstd r =
     Inr (case r of
            Inl err \<Rightarrow> Inl err
          | Inr stored \<Rightarrow>
              if take 4 stored = [0x28, 0xb5, 0x2f, 0xfd] then Inr (drop 4 stored)
              else Inl (Error ''invalid input: magic number mismatch''))"

definition testSeal :: "bytes \<Rightarrow> bytes \<Rightarrow> bytes" where
  "testSeal key written = 0x20 # map (\<lambda>b. xor b (hd key)) written"

definition testUnseal :: "bytes \<Rightarrow> reader \<Rightarrow> error + reader" where
  "testUnseal key r =
     Inr (case r of
            Inl err \<Rightarrow> Inl err
          | Inr stored \<Rightarrow>
              if take 1 stored = [0x20] then Inr (map (\<lambda>b. xor b (hd key)) (drop 1 stored))
              else Inl (Error ''sio: malformed encrypted data''))"

definition testKey :: string where
  "testKey = ''hex:'' @ concat (replicate 32 ''2a'')"

text \<open>
  An environment in which every collaborator succeeds: a PostgreSQL adapter whose dump
  yields three bytes, a store that accepts every object whose stream ends without error
  and lists nothing, and the clock at 10:00.
\<close>

definition testEnv :: env where
  "testEnv =
     \<lparr>os_TempDirLock = ''/tmp/dbu.lock'',
      flock_TryLock = (\<lambda>path. Inr True),
      time_LoadLocation =
        (\<lambda>tz. if tz = ''UTC'' then None else Some (Error (''unknown time zone '' @ tz))),
      clock_wall = (\<lambda>tz. (10, 0)),
      time_Date =
        (\<lambda>tz clock. 1704067200000000000 +
                    (int (fst clock) * 60 + int (snd clock)) * 60000000000),
      clock_start = 1704103200000000000,
      clock_key = \<lparr>Year = 2024, Month = 1, Day = 1, Hour = 10, Minute = 0, Second = 0\<rparr>,
      clock_manifest_id = 1704103201000000000,
      clock_created = 1704103201000000000,
      clock_retention = 1704103201000000000,
      clock_end = 1704103202000000000,
      clock_duration = ''2s'',
      adapter_Name = ''postgres'',
      adapter_Validate = None,
      adapter_Capabilities =
        \<lparr>Incremental = False, Differential = False, TableRestore = True,
         CollectionRestore = False\<rparr>,
      adapter_Dump = Inr (Inr [1, 2, 3], None),
      adapter_Restore =
        (\<lambda>manifest. Inr \<lparr>Stream_Write = (\<lambda>decoded. None), Stream_Close = None,
                           Stream_Wait = None\<rparr>),
      storage_Exists = (\<lambda>key. Inr False),
      storage_Put = (\<lambda>key r. case r of Inl err \<Rightarrow> Some err | Inr stored \<Rightarrow> None),
      storage_Get = (\<lambda>key. Inl (Error ''object not found'')),
      storage_Stat =
        (\<lambda>key. Inr \<lparr>Key = key, Size = 6, Modified = 1704103201000000000,
                      IsManifest = IsManifestKey key\<rparr>),
      storage_List = (\<lambda>prefix. Inr []),
      sort_Slice = sortSlice,
      time_AddDate = AddDateUTC,
      json_Marshal = (\<lambda>manifest. Inr [0x7b, 0x7d]),
      json_Decode = (\<lambda>r. Inl (Error ''EOF'')),
      strings_TrimSpace = (\<lambda>s. s),
      base64_Decode = (\<lambda>s. Inl (Error ''illegal base64 data'')),
      hex_Decode =
        (\<lambda>s. if s = concat (replicate 32 ''2a'') then Inr (replicate 32 0x2a)
              else Inl (Error ''encoding/hex: invalid byte'')),
      gzip_NewWriter = testGzip,
      zstd_NewWriter = Inr testZstd,
      sio_EncryptWriter = (\<lambda>key. Inr (testSeal key)),
      gzip_NewReader = testGunzip,
      zstd_NewReader = testUnzstd,
      sio_DecryptReader = testUnseal,
      sched_sink_first = True,
      sched_pipe_closed = True,
      notifier_present = True,
      version_Version = ''dev''\<rparr>"

definition testCfg :: Config where
  "testCfg =
     \<lparr>Global_LockFile = [],
      Schedule_WindowStart = [],
      Schedule_WindowEnd = [],
      Schedule_Timezone = [],
      Database_Type = ''postgres'',
      Database_Database = ''appdb'',
      Backup_Type = ''full'',
      Backup_Compression = [],
      Backup_Encryption = False,
      Backup_EncryptionKey = [],
      Backup_Idempotent = False,
      Backup_Tables = [],
      Backup_Collections = [],
      Backup_RetentionPolicy = \<lparr>KeepLast = 0, KeepDays = 0, MaxBytes = 0\<rparr>,
      Restore_DryRun = False,
      Storage_Prefix = ''backups''\<rparr>"

text \<open>
  The listing of the retention example: artifacts of 10 bytes each, modified 0, 1, 2, 3
  and 10 days before \<open>exampleNow\<close>, in the order a store may list them, and one
  manifest.
\<close>

definition exampleNow :: instant where
  "exampleNow = 1704931200000000000"

definition exampleObject :: "string \<Rightarrow> int \<Rightarrow> ObjectInfo" where
  "exampleObject key age =
     \<lparr>Key = key, Size = 10, Modified = exampleNow - age * 86400000000000,
      IsManifest = IsManifestKey key\<rparr>"

definition exampleListing :: "ObjectInfo list" where
  "exampleListing =
     [exampleObject ''pg/app/age3.backup'' 3,
      exampleObject ''pg/app/age0.backup'' 0,
      exampleObject ''pg/app/age0.backup.manifest.json'' 0,
      exampleObject ''pg/app/age10.backup'' 10,
      exampleObject ''pg/app/age1.backup'' 1,
      exampleObject ''pg/app/age2.backup'' 2]"

text \<open>
  A listing whose sizes do not fit: two artifacts of \<open>2 ^ 62\<close> bytes each.
\<close>

definition hugeListing :: "ObjectInfo list" where
  "hugeListing =
     [\<lparr>Key = ''pg/app/new.backup'', Size = 4611686018427387904, Modified = 2,
       IsManifest = False\<rparr>,
      \<lparr>Key = ''pg/app/old.backup'', Size = 4611686018427387904, Modified = 1,
       IsManifest = False\<rparr>]"



text \<open>
  The write side followed by the read side: what \<^verbatim>\<open>Restore\<close> hands to the consumer when
  it reads back what \<^verbatim>\<open>Backup\<close> stored for a dump.
\<close>

definition roundTrip :: "env \<Rightarrow> Config \<Rightarrow> Manifest \<Rightarrow> bytes \<Rightarrow> reader" where
  "roundTrip env cfg manifest dumped =
     (case encodeTask env cfg (Inr dumped) of
        Inl err \<Rightarrow> Inl err
      | Inr stored \<Rightarrow>
          (case decodeChain env cfg manifest (Inr stored) of
             Inl err \<Rightarrow> Inl err
           | Inr compReader \<Rightarrow> compReader))"

text \<open>The contract of the codec libraries: reading back what was written yields it.\<close>

definition codec_contract :: "env \<Rightarrow> bool" where
  "codec_contract env =
     ((\<forall>written. gzip_NewReader env (Inr (gzip_NewWriter env written)) = Inr (Inr written)) \<and>
      (\<forall>zstd written. zstd_NewWriter env = Inr zstd \<longrightarrow>
         zstd_NewReader env (Inr (zstd written)) = Inr (Inr written)) \<and>
      (\<forall>key seal written. sio_EncryptWriter env key = Inr seal \<longrightarrow>
         sio_DecryptReader env key (Inr (seal written)) = Inr (Inr written)))"

section \<open>Facts about paths, timestamps and keys\<close>


lemma splitSlash_ne [simp]: "splitSlash s \<noteq> []"
  by (induction s) (auto simp: Let_def)

lemma splitSlash_append_noslash:
  "CHR ''/'' \<notin> set b \<Longrightarrow> splitSlash (a @ b) = butlast (splitSlash a) @ [last (splitSlash a) @ b]"
proof (induction a)
  case Nil
  then show ?case by (induction b) (auto simp: Let_def)
next
  case (Cons c a)
  then show ?case 
    by (cases "splitSlash a") (auto simp: butlast_append last_append Let_def)
qed

lemma splitSlash_noslash: "CHR ''/'' \<notin> set b \<Longrightarrow> splitSlash b = [b]"
  using splitSlash_append_noslash [of b "[]"] by simp

lemma splitSlash_slash:
  "splitSlash (a @ CHR ''/'' # b) = splitSlash a @ splitSlash b"
  by (induction a) (auto simp: hd_append tl_append Let_def split: list.splits)

lemma cleanStep_normal:
  "e \<noteq> [] \<Longrightarrow> e \<noteq> ''.'' \<Longrightarrow> e \<noteq> ''..'' \<Longrightarrow> cleanStep r out e = out @ [e]"
  by (simp add: cleanStep_def)

lemma joinSlash_snoc:
  "joinSlash (st @ [e]) = (if st = [] then e else joinSlash st @ ''/'' @ e)"
  by (induction st rule: joinSlash.induct) auto

lemma splitSlash_noslash_elems: "\<forall>e\<in>set (splitSlash s). CHR ''/'' \<notin> set e"
proof (induction s)
  case Nil
  then show ?case by simp
next
  case (Cons c s)
  then show ?case by (cases "splitSlash s") (auto simp: Let_def)
qed

lemma cleanStep_inv:
  "\<forall>e\<in>set st. okElem e \<Longrightarrow> CHR ''/'' \<notin> set x \<Longrightarrow> \<forall>e\<in>set (cleanStep r st x). okElem e"
  by (auto simp: cleanStep_def okElem_def dest: in_set_butlastD)

lemma foldl_cleanStep_inv:
  "\<forall>e\<in>set st. okElem e \<Longrightarrow> \<forall>x\<in>set segs. CHR ''/'' \<notin> set x \<Longrightarrow>
   \<forall>e\<in>set (foldl (cleanStep r) st segs). okElem e"
proof (induction segs arbitrary: st)
  case Nil
  then show ?case by simp
next
  case (Cons x segs)
  have "\<forall>e\<in>set (cleanStep r st x). okElem e"
    using Cons.prems by (intro cleanStep_inv) auto
  then show ?case
    unfolding foldl_Cons using Cons.prems(2) by (intro Cons.IH) auto
qed

lemma Clean_elems_ok: "\<forall>e\<in>set (foldl (cleanStep r) [] (splitSlash p)). okElem e"
  by (rule foldl_cleanStep_inv) (simp_all add: splitSlash_noslash_elems)

lemma joinSlash_empty:
  "\<forall>e\<in>set st. okElem e \<Longrightarrow> joinSlash st = [] \<longleftrightarrow> st = []"
  by (induction st rule: joinSlash.induct) (auto simp: okElem_def)

lemma joinSlash_dot:
  "\<forall>e\<in>set st. okElem e \<Longrightarrow> joinSlash st \<noteq> ''.''"
  by (induction st rule: joinSlash.induct) (auto simp: append_eq_Cons_conv okElem_def)

lemma joinSlash_slash:
  "\<forall>e\<in>set st. okElem e \<Longrightarrow> joinSlash st \<noteq> ''/''"
  by (induction st rule: joinSlash.induct) (auto simp: append_eq_Cons_conv okElem_def)

lemma Clean_nonempty:
  "p \<noteq> [] \<Longrightarrow> r = (hd p = CHR ''/'') \<Longrightarrow> foldl (cleanStep r) [] (splitSlash p) = st \<Longrightarrow>
   Clean p = (if (if r then ''/'' else []) @ joinSlash st = [] then ''.''
              else (if r then ''/'' else []) @ joinSlash st)"
  by (simp add: Clean_def Let_def)

text \<open>Clean of a path whose last element is an ordinary name ends with that name.\<close>
lemma Clean_keeps_last:
  assumes "CHR ''/'' \<notin> set e" "3 \<le> length e"
  shows "\<exists>w. Clean (z @ e) = w @ e"
proof -
  define L where "L = last (splitSlash z) @ e"
  define r where "r = (hd (z @ e) = CHR ''/'')"
  define st where "st = foldl (cleanStep r) [] (butlast (splitSlash z))"
  have len: "3 \<le> length L" using assms by (simp add: L_def)
  then have L: "L \<noteq> []" "L \<noteq> ''.''" "L \<noteq> ''..''" by auto
  have split: "splitSlash (z @ e) = butlast (splitSlash z) @ [L]"
    using assms(1) by (simp add: splitSlash_append_noslash L_def)
  have fold: "foldl (cleanStep r) [] (splitSlash (z @ e)) = st @ [L]"
    by (simp add: split st_def cleanStep_normal [OF L])
  have ne: "z @ e \<noteq> []" using assms by auto
  have "\<exists>u. joinSlash (st @ [L]) = u @ L"
    by (simp add: joinSlash_snoc)
  then obtain u where u: "joinSlash (st @ [L]) = u @ L" ..
  have "Clean (z @ e) = (if r then ''/'' else []) @ u @ L"
    unfolding Clean_nonempty [OF ne r_def fold] u using L by simp
  then show ?thesis by (simp add: L_def)
qed

text \<open>Clean of a path extended by one ordinary name.\<close>
lemma Clean_append_name:
  assumes "CHR ''/'' \<notin> set e" "e \<noteq> []" "e \<noteq> ''.''" "e \<noteq> ''..''" "P \<noteq> []"
  shows "Clean (P @ CHR ''/'' # e) =
           (if Clean P = ''.'' then e else if Clean P = ''/'' then CHR ''/'' # e
            else Clean P @ CHR ''/'' # e)"
proof -
  define r where "r = (hd P = CHR ''/'')"
  define st where "st = foldl (cleanStep r) [] (splitSlash P)"
  have inv: "\<forall>e\<in>set st. okElem e"
    unfolding st_def by (rule Clean_elems_ok)
  have r': "r = (hd (P @ CHR ''/'' # e) = CHR ''/'')" using assms(5) by (simp add: r_def)
  have split: "splitSlash (P @ CHR ''/'' # e) = splitSlash P @ [e]"
    using assms(1) by (simp add: splitSlash_slash splitSlash_noslash)
  have fold: "foldl (cleanStep r) [] (splitSlash (P @ CHR ''/'' # e)) = st @ [e]"
    by (simp add: split st_def cleanStep_normal assms)
  have ne: "P @ CHR ''/'' # e \<noteq> []" by simp
  note CP = Clean_nonempty [OF assms(5) r_def st_def [symmetric]]
  note CK = Clean_nonempty [OF ne r' fold]
  show ?thesis
  proof (cases "st = []")
    case True
    then show ?thesis unfolding CP CK using assms(2) by (auto simp: joinSlash_snoc)
  next
    case False
    then have j: "joinSlash st \<noteq> []" using inv joinSlash_empty by auto
    have d: "joinSlash st \<noteq> ''.''" using inv by (rule joinSlash_dot)
    have d': "joinSlash st \<noteq> ''/''" using inv by (rule joinSlash_slash)
    show ?thesis unfolding CP CK using False j d d' by (auto simp: joinSlash_snoc)
  qed
qed



lemma digit_less: "a < 10 \<Longrightarrow> b < 10 \<Longrightarrow> digit a < digit b \<longleftrightarrow> a < b"
  by (simp add: digit_def less_char_def)

lemma digit_eq: "a < 10 \<Longrightarrow> b < 10 \<Longrightarrow> digit a = digit b \<longleftrightarrow> a = b"
  by (simp add: digit_def)  

lemma of_char_digit: "a < 10 \<Longrightarrow> of_char (digit a) = 48 + a"
  by (simp add: digit_def)

lemma digit_noslash: "a < 10 \<Longrightarrow> digit a \<noteq> CHR ''/''"
proof
  assume a: "a < 10" and "digit a = CHR ''/''"
  then have "(of_char (digit a) :: nat) = of_char CHR ''/''" by simp
  with a show False by (simp add: of_char_digit)
qed

lemma decimal_small: "n < 10 \<Longrightarrow> decimal n = [digit n]"
  by (simp add: decimal.simps)

lemma decimal_2: "10 \<le> n \<Longrightarrow> n < 100 \<Longrightarrow> decimal n = [digit (n div 10), digit (n mod 10)]"
  by (subst decimal.simps) (simp add: decimal_small)

lemma decimal_3: "100 \<le> n \<Longrightarrow> n < 1000 \<Longrightarrow>
   decimal n = [digit (n div 100), digit (n div 10 mod 10), digit (n mod 10)]"
  by (subst decimal.simps) (simp add: decimal_2 div_mult2_eq [symmetric])

lemma decimal_4: "1000 \<le> n \<Longrightarrow> n < 10000 \<Longrightarrow>
   decimal n = [digit (n div 1000), digit (n div 100 mod 10), digit (n div 10 mod 10), digit (n mod 10)]"
  by (subst decimal.simps) (simp add: decimal_3 div_mult2_eq [symmetric])

lemma digit0: "digit 0 = CHR ''0''"
proof -
  have "char_of (of_char CHR ''0'' :: nat) = CHR ''0''" by (rule char_of_char)
  then show ?thesis by (simp add: digit_def)
qed

lemma rep1: "replicate (Suc 0) c = [c]" by simp
lemma rep2: "replicate 2 c = [c, c]" by (simp add: numeral_2_eq_2)
lemma rep3: "replicate 3 c = [c, c, c]" by (simp add: numeral_3_eq_3)

lemma appendInt_2: "n < 100 \<Longrightarrow> appendInt (int n) 2 = [digit (n div 10), digit (n mod 10)]"
  by (cases "n < 10") (simp_all add: appendInt_def decimal_small decimal_2 digit0)

lemma appendInt_4: "n < 10000 \<Longrightarrow>
   appendInt (int n) 4 = [digit (n div 1000), digit (n div 100 mod 10), digit (n div 10 mod 10), digit (n mod 10)]"
proof -
  assume n: "n < 10000"
  consider "n < 10" | "10 \<le> n" "n < 100" | "100 \<le> n" "n < 1000" | "1000 \<le> n"
    by linarith
  then show ?thesis
  proof cases
    case 1 then show ?thesis by (simp add: appendInt_def decimal_small digit0 rep1 rep2 rep3)
  next
    case 2 then show ?thesis by (simp add: appendInt_def decimal_2 digit0 rep1 rep2 rep3)
  next
    case 3 then show ?thesis by (simp add: appendInt_def decimal_3 digit0 rep1 rep2 rep3)
  next
    case 4 then show ?thesis using n by (simp add: appendInt_def decimal_4 digit0)
  qed
qed



lemma lex_append_same: "(c @ x < c @ y) \<longleftrightarrow> (x < (y :: string))"
  by (induction c) auto

lemma lex_block:
  "length a = length b \<Longrightarrow> (a @ x < b @ y) \<longleftrightarrow> (a < b \<or> a = b \<and> x < (y :: string))"
  by (induction a b rule: list_induct2) auto

lemma divmod_lex:
  fixes a b k :: nat
  assumes "0 < k"
  shows "(a div k < b div k \<or> a div k = b div k \<and> a mod k < b mod k) \<longleftrightarrow> a < b"
proof -
  have a: "a = k * (a div k) + a mod k" and b: "b = k * (b div k) + b mod k" by simp_all
  have ma: "a mod k < k" and mb: "b mod k < k" using assms by simp_all
  show ?thesis
  proof (cases "a div k = b div k")
    case True
    then show ?thesis using a b by (metis nat_add_left_cancel_less nat_neq_iff)
  next
    case False
    show ?thesis
    proof (cases "a div k < b div k")
      case True
      then have "Suc (a div k) \<le> b div k" by simp
      then have "k * Suc (a div k) \<le> k * (b div k)" by (rule mult_le_mono2)
      moreover have "a < k * Suc (a div k)" using a ma by (metis add_less_cancel_left mult_Suc_right add.commute)
      ultimately have "a < b" using b by linarith
      then show ?thesis using True by simp
    next
      case F2: False
      with False have "b div k < a div k" by simp
      then have "Suc (b div k) \<le> a div k" by simp
      then have "k * Suc (b div k) \<le> k * (a div k)" by (rule mult_le_mono2)
      moreover have "b < k * Suc (b div k)" using b mb by (metis add_less_cancel_left mult_Suc_right add.commute)
      ultimately have "b < a" using a by linarith
      then show ?thesis using False F2 by simp
    qed
  qed
qed

lemma num2_less:
  "a < 100 \<Longrightarrow> b < 100 \<Longrightarrow> appendInt (int a) 2 < appendInt (int b) 2 \<longleftrightarrow> a < b"
  using divmod_lex [of 10 a b]
  by (simp add: appendInt_2 digit_less digit_eq)

lemma divmod_eq:
  fixes a b k :: nat
  shows "(a div k = b div k \<and> a mod k = b mod k) \<longleftrightarrow> a = b"
  by (metis div_mult_mod_eq)

lemma num2_eq:
  "a < 100 \<Longrightarrow> b < 100 \<Longrightarrow> appendInt (int a) 2 = appendInt (int b) 2 \<longleftrightarrow> a = b"
  using divmod_eq [of a 10 b]
  by (simp add: appendInt_2 digit_eq)

lemma length_num2 [simp]: "a < 100 \<Longrightarrow> length (appendInt (int a) 2) = 2"
  by (simp add: appendInt_2)

lemma appendInt_4_split:
  "n < 10000 \<Longrightarrow> appendInt (int n) 4 = appendInt (int (n div 100)) 2 @ appendInt (int (n mod 100)) 2"
proof -
  assume n: "n < 10000"
  then have d: "n div 100 < 100" by simp
  have m: "n mod 100 < 100" by simp
  have 1: "n div 100 div 10 = n div 1000" by (simp add: div_mult2_eq [symmetric])
  have 2: "n mod 100 div 10 = n div 10 mod 10"
    using mod_mult2_eq [of n 10 10] by simp
  have 3: "n mod 100 mod 10 = n mod 10"
    by (simp add: mod_mod_cancel)
  show ?thesis
    unfolding appendInt_4 [OF n] appendInt_2 [OF d] appendInt_2 [OF m] 1 2 3 by simp
qed

lemma num4_less:
  assumes "a < 10000" "b < 10000"
  shows "appendInt (int a) 4 < appendInt (int b) 4 \<longleftrightarrow> a < b"
proof -
  have d: "a div 100 < 100" "b div 100 < 100" using assms by simp_all
  have m: "a mod 100 < 100" "b mod 100 < 100" by simp_all
  show ?thesis
    unfolding appendInt_4_split [OF assms(1)] appendInt_4_split [OF assms(2)]
    using divmod_lex [of 100 a b] d m
    by (simp add: lex_block num2_less num2_eq)
qed

lemma num4_eq:
  assumes "a < 10000" "b < 10000"
  shows "appendInt (int a) 4 = appendInt (int b) 4 \<longleftrightarrow> a = b"
proof -
  have d: "a div 100 < 100" "b div 100 < 100" using assms by simp_all
  have m: "a mod 100 < 100" "b mod 100 < 100" by simp_all
  show ?thesis
    unfolding appendInt_4_split [OF assms(1)] appendInt_4_split [OF assms(2)]
    using divmod_eq [of a 100 b] d m
    by (simp add: num2_eq)
qed

lemma length_num4 [simp]: "a < 10000 \<Longrightarrow> length (appendInt (int a) 4) = 4"
  by (simp add: appendInt_4)

lemma Format_less:
  assumes "valid_time s" "valid_time t"
  shows "Format s < Format t \<longleftrightarrow> time_before s t"
proof -
  define ys yt where "ys = nat (Year s)" and "yt = nat (Year t)"
  have y: "Year s = int ys" "Year t = int yt" "ys < 10000" "yt < 10000"
    using assms by (auto simp: valid_time_def ys_def yt_def)
  have b: "Month s < 100" "Month t < 100" "Day s < 100" "Day t < 100"
    "Hour s < 100" "Hour t < 100" "Minute s < 100" "Minute t < 100"
    "Second s < 100" "Second t < 100"
    using assms by (auto simp: valid_time_def)
  show ?thesis
    unfolding Format_def time_before_def time_fields_def y(1,2)
    using y(3,4) b
    by (simp add: lex_block num2_less num2_eq num4_less num4_eq)
qed

lemma length_Format: "valid_time t \<Longrightarrow> length (Format t) = 16"
proof -
  assume v: "valid_time t"
  define y where "y = nat (Year t)"
  have y: "Year t = int y" "y < 10000" using v by (auto simp: valid_time_def y_def)
  have b: "Month t < 100" "Day t < 100" "Hour t < 100" "Minute t < 100" "Second t < 100"
    using v by (auto simp: valid_time_def)
  show ?thesis unfolding Format_def y(1) using y(2) b by simp
qed



lemma decimal_noslash: "CHR ''/'' \<notin> set (decimal n)"
proof (induction n rule: decimal.induct)
  case (1 n)
  show ?case
  proof (cases "n < 10")
    case True
    then show ?thesis using digit_noslash [of n] by (subst decimal.simps) auto
  next
    case False
    have "n mod 10 < 10" by simp
    then have "digit (n mod 10) \<noteq> CHR ''/''" by (rule digit_noslash)
    then show ?thesis using False 1 by (subst decimal.simps) auto
  qed
qed

lemma appendInt_noslash: "CHR ''/'' \<notin> set (appendInt x w)"
  by (auto simp: appendInt_def decimal_noslash)

lemma Format_noslash: "CHR ''/'' \<notin> set (Format t)"
  by (simp add: Format_def appendInt_noslash)

lemma suffixOf_length3: "3 \<le> length (suffixOf bt w ext)"
  by (simp add: suffixOf_def Format_def)

lemma joinBuf_nonempty: "e \<noteq> [] \<Longrightarrow> joinBuf buf e = (if buf \<noteq> [] then buf @ CHR ''/'' # e else e)"
  by (simp add: joinBuf_def)

lemma Join_snoc:
  "e \<noteq> [] \<Longrightarrow> Join (parts @ [e]) =
     Clean (if foldl joinBuf [] parts \<noteq> [] then foldl joinBuf [] parts @ CHR ''/'' # e else e)"
  by (simp add: Join_def joinBuf_nonempty)

lemma BuildObjectKey_Join:
  "BuildObjectKey prefix dbType dbName backupType when extension =
     Join ((if prefix \<noteq> [] then [TrimSlash prefix] else []) @ [dbType, dbName] @
           [suffixOf backupType when extension])"
  by (simp add: BuildObjectKey_def suffixOf_def Let_def)

lemma suffixOf_props:
  "suffixOf bt w ext \<noteq> []" "suffixOf bt w ext \<noteq> ''.''" "suffixOf bt w ext \<noteq> ''..''"
proof -
  have "3 \<le> length (suffixOf bt w ext)"
    by (rule suffixOf_length3)
  then show "suffixOf bt w ext \<noteq> []" "suffixOf bt w ext \<noteq> ''.''" "suffixOf bt w ext \<noteq> ''..''"
    by auto
qed

lemma suffixOf_noslash:
  "CHR ''/'' \<notin> set bt \<Longrightarrow> CHR ''/'' \<notin> set ext \<Longrightarrow> CHR ''/'' \<notin> set (suffixOf bt w ext)"
  by (simp add: suffixOf_def Format_noslash)

lemma BuildObjectKey_shape:
  assumes "dbType \<noteq> []" "dbName \<noteq> []" "CHR ''/'' \<notin> set backupType" "CHR ''/'' \<notin> set extension"
  shows "BuildObjectKey prefix dbType dbName backupType when extension =
           (if BuildPrefix prefix dbType dbName = ''.'' then []
            else if BuildPrefix prefix dbType dbName = ''/'' then ''/''
            else BuildPrefix prefix dbType dbName @ ''/'') @ suffixOf backupType when extension"
proof -
  define parts where "parts = (if prefix \<noteq> [] then [TrimSlash prefix] else []) @ [dbType, dbName]"
  define P where "P = foldl joinBuf [] parts"
  define e where "e = suffixOf backupType when extension"
  have P: "P \<noteq> []" using assms(2) by (simp add: P_def parts_def joinBuf_def)
  have bp: "BuildPrefix prefix dbType dbName = Clean P"
    using assms(1,2) by (simp add: BuildPrefix_def Join_def P_def parts_def Let_def)
  have e: "e \<noteq> []" "e \<noteq> ''.''" "e \<noteq> ''..''" unfolding e_def by (rule suffixOf_props)+
  have ns: "CHR ''/'' \<notin> set e" unfolding e_def using assms(3,4) by (rule suffixOf_noslash)
  have "BuildObjectKey prefix dbType dbName backupType when extension = Join (parts @ [e])"
    by (simp add: BuildObjectKey_Join parts_def e_def)
  also have "\<dots> = Clean (P @ CHR ''/'' # e)"
    using P by (simp add: Join_snoc [OF e(1)] P_def)
  also have "\<dots> = (if Clean P = ''.'' then e else if Clean P = ''/'' then CHR ''/'' # e
            else Clean P @ CHR ''/'' # e)"
    using ns e P by (rule Clean_append_name)
  finally show ?thesis by (simp add: bp e_def)
qed

lemma HasPrefix_append: "HasPrefix (p @ s) p"
  by (simp add: HasPrefix_def)

lemma key_has_prefix:
  assumes "dbType \<noteq> []" "dbName \<noteq> []" "CHR ''/'' \<notin> set backupType" "CHR ''/'' \<notin> set extension"
    and "BuildPrefix prefix dbType dbName \<noteq> ''.''"
  shows "HasPrefix (BuildObjectKey prefix dbType dbName backupType when extension)
           (BuildPrefix prefix dbType dbName) \<and>
         BuildObjectKey prefix dbType dbName backupType when extension \<noteq>
           BuildPrefix prefix dbType dbName"
  unfolding BuildObjectKey_shape [OF assms(1-4)]
  using assms(5) suffixOf_props(1) [of backupType "when" extension]
  by (auto simp: HasPrefix_def)

lemma suffixOf_less:
  assumes "valid_time s" "valid_time t" "time_before s t"
  shows "suffixOf bt s ext < suffixOf bt t ext"
  unfolding suffixOf_def
  using assms by (simp add: lex_block length_Format Format_less)

lemma key_less:
  assumes "dbType \<noteq> []" "dbName \<noteq> []" "CHR ''/'' \<notin> set backupType" "CHR ''/'' \<notin> set extension"
    and "valid_time s" "valid_time t" "time_before s t"
  shows "BuildObjectKey prefix dbType dbName backupType s extension <
         BuildObjectKey prefix dbType dbName backupType t extension"
  unfolding BuildObjectKey_shape [OF assms(1-4)] lex_append_same
  using assms(5-7) by (rule suffixOf_less)

lemma HasSuffix_iff: "HasSuffix s suf \<longleftrightarrow> (\<exists>w. s = w @ suf)"
  by (auto simp: HasSuffix_def) (metis append_take_drop_id)

lemma buildExtension_eq:
  "buildExtension c e =
     ''backup'' @ (if c = TypeGzip then ''.gz'' else if c = TypeZstd then ''.zst'' else []) @
     (if e then ''.enc'' else [])"
  by (simp add: buildExtension_def TrimPrefix_def HasPrefix_def Let_def)

lemma buildExtension_props:
  "buildExtension c e \<noteq> []" "CHR ''/'' \<notin> set (buildExtension c e)"
  "3 \<le> length (buildExtension c e)" "last (buildExtension c e) \<noteq> CHR ''n''"
  "HasPrefix (buildExtension c e) ''backup''"
  by (simp_all add: buildExtension_eq HasPrefix_def)

lemma not_manifest_by_last:
  assumes "s = w @ ext" "ext \<noteq> []" "last ext \<noteq> CHR ''n''"
  shows "\<not> HasSuffix s ManifestSuffix"
proof
  assume "HasSuffix s ManifestSuffix"
  then obtain u where "s = u @ ManifestSuffix" unfolding HasSuffix_iff ..
  then have "last s = CHR ''n''" by (simp add: ManifestSuffix_def)
  moreover have "last s = last ext" using assms(1,2) by simp
  ultimately show False using assms(3) by simp
qed

lemma key_ends_with_extension:
  assumes "extension \<noteq> []" "CHR ''/'' \<notin> set extension" "3 \<le> length extension"
  shows "\<exists>w. BuildObjectKey prefix dbType dbName backupType when extension = w @ extension"
proof -
  define parts where "parts = (if prefix \<noteq> [] then [TrimSlash prefix] else []) @ [dbType, dbName]"
  define e where "e = suffixOf backupType when extension"
  have e: "e \<noteq> []" unfolding e_def by (rule suffixOf_props)
  obtain y where y: "e = y @ extension" using assms(1) by (simp add: e_def suffixOf_def)
  have "BuildObjectKey prefix dbType dbName backupType when extension = Join (parts @ [e])"
    by (simp add: BuildObjectKey_Join parts_def e_def)
  then have "BuildObjectKey prefix dbType dbName backupType when extension =
      Clean ((if foldl joinBuf [] parts \<noteq> [] then foldl joinBuf [] parts @ ''/'' else []) @ e)"
    unfolding Join_snoc [OF e] by simp
  then obtain x where "BuildObjectKey prefix dbType dbName backupType when extension = Clean (x @ e)"
    by blast
  then have "BuildObjectKey prefix dbType dbName backupType when extension = Clean ((x @ y) @ extension)"
    by (simp add: y)
  then show ?thesis using Clean_keeps_last [OF assms(2,3), of "x @ y"] by simp
qed



lemma digit_table:
  "digit 0 = CHR ''0''" "digit 1 = CHR ''1''" "digit 2 = CHR ''2''" "digit 3 = CHR ''3''"
  "digit 4 = CHR ''4''" "digit 5 = CHR ''5''" "digit 6 = CHR ''6''" "digit 7 = CHR ''7''"
  "digit 8 = CHR ''8''" "digit 9 = CHR ''9''"
proof -
  have c: "\<And>k c. of_char c = 48 + k \<Longrightarrow> digit k = c"
    unfolding digit_def by (metis char_of_char)
  show "digit 0 = CHR ''0''" "digit 1 = CHR ''1''" "digit 2 = CHR ''2''" "digit 3 = CHR ''3''"
  "digit 4 = CHR ''4''" "digit 5 = CHR ''5''" "digit 6 = CHR ''6''" "digit 7 = CHR ''7''"
  "digit 8 = CHR ''8''" "digit 9 = CHR ''9''"
    by (rule c, simp)+
qed

lemma decimal_numeral:
  "decimal (numeral k) =
     (if (numeral k :: nat) < 10 then [digit (numeral k)]
      else decimal (numeral k div 10) @ [digit (numeral k mod 10)])"
  by (rule decimal.simps)

lemma digit_Suc0: "digit (Suc 0) = CHR ''1''"
  using digit_table(2) by simp

lemma decimal_01: "decimal 0 = ''0''" "decimal 1 = ''1''" "decimal (Suc 0) = ''1''"
  by (simp_all add: decimal_small digit_table digit_Suc0)

lemmas eval_simps =
  BuildObjectKey_def BuildPrefix_def Join_def joinBuf_def Clean_def cleanStep_def Let_def
  TrimSlash_def Format_def appendInt_def decimal_numeral decimal_01 digit_table digit_Suc0
  HasPrefix_def HasSuffix_def rep1 rep2 rep3


section \<open>Facts about the configuration envelope\<close>


lemma unat_byte_lt: "unat (x :: byte) < 256"
  using unsigned_less [of x, where ?'a = nat] by simp

lemma unat_ucast_byte: "unat (ucast (x :: byte) :: 16 word) = unat x"
proof -
  have "unat x < 2 ^ 16" using unat_byte_lt [of x] by simp
  then show ?thesis by (simp add: unsigned_ucast_eq take_bit_nat_eq_self)
qed

lemma Uint16_unat: "unat (Uint16 [a, b]) = 256 * unat a + unat b"
proof -
  let ?x = "ucast b :: 16 word" and ?y = "push_bit 8 (ucast a) :: 16 word"
  note ub = unat_ucast_byte [of b] and ua = unat_ucast_byte [of a]
  note la = unat_byte_lt [of a] and lb = unat_byte_lt [of b]
  have uy: "unat ?y = 256 * unat a"
    using la by (simp add: push_bit_eq_mult unat_word_ariths ua)
  have disj: "and ?x ?y = 0"
    by (auto simp: bit_eq_iff bit_simps dest: bit_imp_le_length)
  have "or ?x ?y = ?x + ?y" using disj by (rule disjunctive_add_eq_or [symmetric])
  moreover have "unat (?x + ?y) = unat ?x + unat ?y"
    using la lb by (simp add: unat_word_ariths ub uy)
  ultimately show ?thesis by (simp add: Uint16_def ub uy)
qed

lemma version_bytes:
  assumes "18 \<le> length c"
  shows "unat (Uint16 (take 2 (drop 4 c))) = 256 * unat (c ! 4) + unat (c ! 5)"
proof -
  have "take 2 (drop 4 c) = [c ! 4, c ! 5]"
    using assms by (simp add: list_eq_iff_nth_eq less_Suc_eq numeral_2_eq_2)
  then show ?thesis by (simp add: Uint16_unat)
qed

lemma version_ok:
  assumes "18 \<le> length c"
  shows "Uint16 (take 2 (drop 4 c)) = configVer \<longleftrightarrow> 256 * unat (c ! 4) + unat (c ! 5) = 1"
proof -
  have "Uint16 (take 2 (drop 4 c)) = configVer \<longleftrightarrow> unat (Uint16 (take 2 (drop 4 c))) = unat configVer"
    by (simp add: word_unat_eq_iff)
  then show ?thesis by (simp add: version_bytes [OF assms] configVer_def)
qed

lemma NewCipher_32: "length key = 32 \<Longrightarrow> NewCipher key = None"
  by (simp add: NewCipher_def)

lemma DecryptConfig_cases:
  assumes "length key = 32"
  shows "DecryptConfig Open c key =
     (if length c < 18 then (None, Some (Error ''config cipher too short''))
      else if take 4 c \<noteq> configMagic then (None, Some (Error ''invalid config header''))
      else if 256 * unat (c ! 4) + unat (c ! 5) \<noteq> 1 then
        (None, Some (Error (''unsupported config version '' @
           decimal (unat (Uint16 (take 2 (drop 4 c)))))))
      else if snd (Open key (take 12 (drop 6 c)) (drop 18 c)) \<noteq> None then
        (None, snd (Open key (take 12 (drop 6 c)) (drop 18 c)))
      else (fst (Open key (take 12 (drop 6 c)) (drop 18 c)), None))"
proof (cases "length c < 18")
  case True
  then show ?thesis by (simp add: DecryptConfig_def)
next
  case False
  then have len: "18 \<le> length c" by simp
  show ?thesis
    using False version_ok [OF len] NewCipher_32 [OF assms]
    by (cases "Open key (take 12 (drop 6 c)) (drop 18 c)")
       (auto simp: DecryptConfig_def Let_def split: option.splits)
qed


section \<open>Facts about the retention pass\<close>


lemma insertNewer_mset: "mset (insertNewer x ys) = add_mset x (mset ys)"
  by (induction ys) auto

lemma insertNewer_sorted:
  "newest_first (rev ys) \<Longrightarrow> newest_first (insertNewer x ys)"
proof (induction ys)
  case Nil
  then show ?case by (simp add: newest_first_def)
next
  case (Cons y ys)
  from Cons.prems have s: "newest_first (rev ys)"
    and ge: "\<forall>z\<in>set ys. Modified y \<le> Modified z"
    by (auto simp: newest_first_def sorted_wrt_append)
  show ?case
  proof (cases "Modified y < Modified x")
    case True
    have "set (insertNewer x ys) = insert x (set ys)"
      using insertNewer_mset [of x ys] by (metis set_mset_add_mset_insert set_mset_mset)
    then show ?thesis
      using True ge Cons.IH [OF s] by (auto simp: newest_first_def sorted_wrt_append)
  next
    case False
    then show ?thesis
      using Cons.prems ge by (auto simp: newest_first_def sorted_wrt_append)
  qed
qed

lemma sortSlice_foldl:
  "newest_first acc \<Longrightarrow>
   newest_first (foldl (\<lambda>sorted x. insertNewer x (rev sorted)) acc xs) \<and>
   mset (foldl (\<lambda>sorted x. insertNewer x (rev sorted)) acc xs) = mset acc + mset xs"
proof (induction xs arbitrary: acc)
  case Nil
  then show ?case by simp
next
  case (Cons x xs)
  have "newest_first (insertNewer x (rev acc))"
    using Cons.prems by (simp add: insertNewer_sorted)
  from Cons.IH [OF this] show ?case by (simp add: insertNewer_mset)
qed

lemma sortSlice_contract: "sort_contract sortSlice"
  unfolding sort_contract_def sortSlice_def
  using sortSlice_foldl [of "[]"] by (simp add: newest_first_def)

lemma totalSize_sum: "foldl (\<lambda>total obj. total + Size obj) acc objs = acc + sum_list (map Size objs)"
  by (induction objs arbitrary: acc) (simp_all add: add.assoc)


lemma retentionStep_spec:
  "retentionStep policy cutoff (i, remaining, calls) obj =
     (if spec_retained policy cutoff i (sint remaining) obj then (Suc i, remaining, calls)
      else (Suc i, remaining - Size obj,
            calls @ [StorageDelete (Key obj), StorageDelete (ManifestKey (Key obj))]))"
  unfolding retentionStep_def spec_retained_def word_sless_alt word_sle_eq
  by (simp add: sint_0)

text \<open>The loop only adds deletions to the calls made.\<close>
lemma retention_loop_actions:
  "a \<in> set (snd (snd (foldl (retentionStep policy cutoff) (i, remaining, calls) objs))) \<Longrightarrow>
   a \<in> set calls \<or> (\<exists>k. a = StorageDelete k)"
proof (induction objs arbitrary: i remaining calls)
  case Nil
  then show ?case by simp
next
  case (Cons obj objs)
  show ?case
  proof (cases "spec_retained policy cutoff i (sint remaining) obj")
    case True
    then have "a \<in> set (snd (snd (foldl (retentionStep policy cutoff)
        (Suc i, remaining, calls) objs)))"
      using Cons.prems by (simp add: retentionStep_spec)
    then show ?thesis by (rule Cons.IH)
  next
    case False
    then have "a \<in> set (snd (snd (foldl (retentionStep policy cutoff)
        (Suc i, remaining - Size obj,
         calls @ [StorageDelete (Key obj), StorageDelete (ManifestKey (Key obj))]) objs)))"
      using Cons.prems by (simp add: retentionStep_spec)
    then have "a \<in> set (calls @ [StorageDelete (Key obj), StorageDelete (ManifestKey (Key obj))]) \<or>
        (\<exists>k. a = StorageDelete k)"
      by (rule Cons.IH)
    then show ?thesis by auto
  qed
qed

lemma sint_add_fit:
  fixes a b :: "64 word"
  assumes "- (2 ^ 63) \<le> sint a + sint b" and "sint a + sint b < 2 ^ 63"
  shows "sint (a + b) = sint a + sint b"
  using assms by (simp add: sint_word_ariths signed_take_bit_int_eq_self)

lemma sint_diff_fit:
  fixes a b :: "64 word"
  assumes "- (2 ^ 63) \<le> sint a - sint b" and "sint a - sint b < 2 ^ 63"
  shows "sint (a - b) = sint a - sint b"
  using assms by (simp add: sint_word_ariths signed_take_bit_int_eq_self)

lemma total_size_Cons: "total_size (obj # objs) = sint (Size obj) + total_size objs"
  by (simp add: total_size_def)

lemma total_size_nonneg:
  "list_all (\<lambda>obj. 0 \<le> sint (Size obj)) objs \<Longrightarrow> 0 \<le> total_size objs"
  by (induction objs) (simp_all add: total_size_def)

text \<open>On sizes that fit, the 64-bit sum of the sizes is their sum.\<close>
lemma sint_sum_sizes:
  assumes "sizes_fit objs"
  shows "sint (sum_list (map Size objs)) = total_size objs"
  using assms
proof (induction objs)
  case Nil
  then show ?case by (simp add: total_size_def)
next
  case (Cons obj objs)
  from Cons.prems have p: "0 \<le> sint (Size obj)"
    "list_all (\<lambda>obj. 0 \<le> sint (Size obj)) objs"
    "sint (Size obj) + total_size objs < 2 ^ 63"
    by (simp_all add: sizes_fit_def total_size_Cons)
  have n: "0 \<le> total_size objs" using p(2) by (rule total_size_nonneg)
  have f: "sizes_fit objs" using p n by (simp add: sizes_fit_def)
  have ih: "sint (sum_list (map Size objs)) = total_size objs" using Cons.IH [OF f] .
  have "sint (Size obj + sum_list (map Size objs)) =
      sint (Size obj) + sint (sum_list (map Size objs))"
    by (rule sint_add_fit) (use p n ih in simp_all)
  then show ?case by (simp add: ih total_size_Cons)
qed

text \<open>
  While the running total is at least the size of what is still to walk, and fits, the loop
  makes the deletions of the walk of the specification.
\<close>
lemma retention_loop:
  assumes "list_all (\<lambda>obj. 0 \<le> sint (Size obj)) objs"
    and "total_size objs \<le> sint remaining"
  shows "snd (snd (foldl (retentionStep policy cutoff) (i, remaining, calls) objs)) =
     calls @ map StorageDelete (spec_walk policy cutoff i (sint remaining) objs)"
  using assms
proof (induction objs arbitrary: i remaining calls)
  case Nil
  then show ?case by simp
next
  case (Cons obj objs)
  from Cons.prems have p: "0 \<le> sint (Size obj)"
    "list_all (\<lambda>obj. 0 \<le> sint (Size obj)) objs"
    "sint (Size obj) + total_size objs \<le> sint remaining"
    by (simp_all add: total_size_Cons)
  have n: "0 \<le> total_size objs" using p(2) by (rule total_size_nonneg)
  show ?case
  proof (cases "spec_retained policy cutoff i (sint remaining) obj")
    case True
    have "total_size objs \<le> sint remaining" using p by simp
    from Cons.IH [OF p(2) this] True show ?thesis by (simp add: retentionStep_spec)
  next
    case False
    have hi: "sint remaining < 2 ^ 63" using sint_lt [of remaining] by simp
    have d: "sint (remaining - Size obj) = sint remaining - sint (Size obj)"
      by (rule sint_diff_fit) (use p n hi in simp_all)
    have "total_size objs \<le> sint (remaining - Size obj)" using p d by simp
    from Cons.IH [OF p(2) this] False show ?thesis by (simp add: retentionStep_spec d)
  qed
qed

lemma total_size_mset: "mset xs = mset ys \<Longrightarrow> total_size xs = total_size ys"
proof -
  assume "mset xs = mset ys"
  then have "mset (map (\<lambda>obj. sint (Size obj)) xs) = mset (map (\<lambda>obj. sint (Size obj)) ys)"
    by simp
  then have "sum_mset (mset (map (\<lambda>obj. sint (Size obj)) xs)) =
      sum_mset (mset (map (\<lambda>obj. sint (Size obj)) ys))"
    by (rule arg_cong)
  then show ?thesis unfolding total_size_def sum_mset_sum_list .
qed

lemma sizes_fit_mset: "mset xs = mset ys \<Longrightarrow> sizes_fit ys \<Longrightarrow> sizes_fit xs"
proof -
  assume m: "mset xs = mset ys" and f: "sizes_fit ys"
  from m have "set xs = set ys" by (rule mset_eq_setD)
  then show ?thesis using f total_size_mset [OF m] by (simp add: sizes_fit_def list_all_iff)
qed

lemma applyRetention_listed:
  assumes "listing (BuildPrefix prefix dbType dbName) = Inr objects"
    and "mset (srt (filter (\<lambda>obj. \<not> IsManifest obj) objects)) =
         mset (filter (\<lambda>obj. \<not> IsManifest obj) objects)"
    and "sizes_fit (filter (\<lambda>obj. \<not> IsManifest obj) objects)"
  shows "applyRetention srt AddDate listing now policy prefix dbType dbName =
     (None,
      (if KeepDays policy = 0 \<and> KeepLast policy = 0 \<and> MaxBytes policy = 0 then []
       else [StorageList (BuildPrefix prefix dbType dbName)]) @
      map StorageDelete
        (spec_retention policy (AddDate now (- KeepDays policy))
           (srt (filter (\<lambda>obj. \<not> IsManifest obj) objects))))"
proof -
  let ?bs = "srt (filter (\<lambda>obj. \<not> IsManifest obj) objects)"
  have f: "sizes_fit ?bs" using assms(2,3) by (rule sizes_fit_mset)
  have s: "sint (sum_list (map Size ?bs)) = total_size ?bs" using f by (rule sint_sum_sizes)
  have l: "list_all (\<lambda>obj. 0 \<le> sint (Size obj)) ?bs" using f by (simp add: sizes_fit_def)
  have z: "sint (MaxBytes policy) = 0 \<longleftrightarrow> MaxBytes policy = 0"
    by (rule signed_eq_0_iff)
  have loop: "\<And>cutoff. snd (snd (foldl (retentionStep policy cutoff)
        (0, sum_list (map Size ?bs), []) ?bs)) =
      map StorageDelete (spec_walk policy cutoff 0 (total_size ?bs) ?bs)"
    using retention_loop [OF l, of "sum_list (map Size ?bs)" policy _ 0 "[]"] s by simp
  show ?thesis
  proof (cases "KeepDays policy = 0 \<and> KeepLast policy = 0 \<and> MaxBytes policy = 0")
    case True
    then show ?thesis by (simp add: applyRetention_def spec_retention_def z)
  next
    case False
    then have "applyRetention srt AddDate listing now policy prefix dbType dbName =
        (None, StorageList (BuildPrefix prefix dbType dbName) #
           snd (snd (foldl (retentionStep policy (AddDate now (- KeepDays policy)))
             (0, sum_list (map Size ?bs), []) ?bs)))"
      unfolding applyRetention_def Let_def totalSize_sum using assms(1) by auto
    moreover have "spec_retention policy (AddDate now (- KeepDays policy)) ?bs =
        spec_walk policy (AddDate now (- KeepDays policy)) 0 (total_size ?bs) ?bs"
      using False unfolding spec_retention_def z by auto
    ultimately show ?thesis using False by (simp only: loop) simp
  qed
qed

lemma huge_run:
  "applyRetention sortSlice AddDateUTC (\<lambda>prefix. Inr hugeListing) 3
     \<lparr>KeepLast = 0, KeepDays = 0, MaxBytes = 1\<rparr> [] ''pg'' ''app'' =
   (None, [StorageList ''pg/app''])"
  by (simp add: applyRetention_def hugeListing_def sortSlice_def retentionStep_def Let_def
      eval_simps word_sless_alt word_sle_eq)

lemma huge_spec:
  "spec_retention \<lparr>KeepLast = 0, KeepDays = 0, MaxBytes = 1\<rparr> (AddDateUTC 3 0) hugeListing =
   [''pg/app/new.backup'', ''pg/app/new.backup.manifest.json'',
    ''pg/app/old.backup'', ''pg/app/old.backup.manifest.json'']"
  by (simp add: spec_retention_def spec_retained_def total_size_def hugeListing_def
      ManifestKey_def ManifestSuffix_def)

lemma example_prefix: "BuildPrefix [] ''pg'' ''app'' = ''pg/app''"
  by (simp add: eval_simps)

lemma example_artifacts:
  "sortSlice (filter (\<lambda>obj. \<not> IsManifest obj) exampleListing) =
     [exampleObject ''pg/app/age0.backup'' 0, exampleObject ''pg/app/age1.backup'' 1,
      exampleObject ''pg/app/age2.backup'' 2, exampleObject ''pg/app/age3.backup'' 3,
      exampleObject ''pg/app/age10.backup'' 10]"
  by (simp add: exampleListing_def exampleObject_def exampleNow_def sortSlice_def
      IsManifestKey_def HasSuffix_def ManifestSuffix_def)

lemma example_walk:
  "spec_retention \<lparr>KeepLast = 2, KeepDays = 5, MaxBytes = 0\<rparr> (AddDateUTC exampleNow (- 5))
     [exampleObject ''pg/app/age0.backup'' 0, exampleObject ''pg/app/age1.backup'' 1,
      exampleObject ''pg/app/age2.backup'' 2, exampleObject ''pg/app/age3.backup'' 3,
      exampleObject ''pg/app/age10.backup'' 10] =
     [''pg/app/age10.backup'', ''pg/app/age10.backup.manifest.json'']"
  by (simp add: spec_retention_def spec_retained_def exampleObject_def exampleNow_def
      AddDateUTC_def ManifestKey_def ManifestSuffix_def)


lemma example_fits: "sizes_fit (filter (\<lambda>obj. \<not> IsManifest obj) exampleListing)"
  by (simp add: sizes_fit_def total_size_def exampleListing_def exampleObject_def
      IsManifestKey_def HasSuffix_def ManifestSuffix_def)

lemma huge_sorted: "sortSlice (filter (\<lambda>obj. \<not> IsManifest obj) hugeListing) = hugeListing"
  by (simp add: hugeListing_def sortSlice_def)

lemma huge_total: "total_size hugeListing = 2 ^ 63"
  by (simp add: total_size_def hugeListing_def)

section \<open>Facts about the actions of a backup\<close>


lemmas app_defs =
  Backup_def backupLocked_def backupKeyed_def backupStream_def backupFinish_def
  writeManifest_def egWait_def encodeTask_def notification_def statusFromErr_def
  Acquire_def InWindow_def parseClock_def parseError_def rangeError_def quote_def hexDigit_def
  isDigit_def digitVal_def
  ParseKey_def WrapWriter_def WrapReader_def EncryptWriter_def DecryptReader_def
  EqualFold_def itoa_def message_def applyRetention_def
  Restore_def restoreLocked_def restoreStream_def decodeChain_def readManifest_def
  TypeNone_def TypeGzip_def TypeZstd_def buildExtension_def TrimPrefix_def
  ManifestKey_def ManifestSuffix_def IsManifestKey_def

lemmas test_defs =
  testEnv_def testCfg_def testKey_def testGzip_def testGunzip_def testZstd_def
  testUnzstd_def testSeal_def testUnseal_def emptyManifest_def



lemma applyRetention_actions:
  "a \<in> set (snd (applyRetention srt AddDate listing now policy prefix dbType dbName)) \<Longrightarrow>
   (\<exists>p. a = StorageList p) \<or> (\<exists>k. a = StorageDelete k)"
  by (auto simp: applyRetention_def Let_def split: sum.splits if_splits
      dest!: retention_loop_actions)

lemma writeManifest_actions:
  "a \<in> set (snd (writeManifest env manifest)) \<Longrightarrow>
   (\<exists>payload. a = StoragePut (ManifestKey (Manifest_Key manifest)) payload)"
  by (auto simp: writeManifest_def Let_def split: sum.splits)

lemma backupFinish_actions:
  "a \<in> set (snd (snd (backupFinish env cfg key))) \<Longrightarrow>
   a = StorageStat key \<or> (\<exists>payload. a = StoragePut (ManifestKey key) payload) \<or>
   (\<exists>m. a = LogWarn m) \<or> (\<exists>p. a = StorageList p) \<or> (\<exists>k. a = StorageDelete k)"
  by (auto simp: backupFinish_def Let_def split: sum.splits option.splits
      dest!: writeManifest_actions applyRetention_actions)

lemma backupStream_actions:
  "a \<in> set (snd (snd (backupStream env cfg key dump wait))) \<Longrightarrow>
   (\<exists>r. a = GoSink key r) \<or> a = GoEncode \<or> a = DumpWait \<or> a = EgWait \<or>
   (\<exists>e. a = PipeCloseWithError e) \<or>
   a = StorageStat key \<or> (\<exists>payload. a = StoragePut (ManifestKey key) payload) \<or>
   (\<exists>m. a = LogWarn m) \<or> (\<exists>p. a = StorageList p) \<or> (\<exists>k. a = StorageDelete k)"
  by (auto simp: backupStream_def Let_def split: option.splits dest!: backupFinish_actions)

lemma backupKeyed_gate:
  assumes "Backup_Idempotent cfg" and "storage_Exists env key = Inr True"
  shows "backupKeyed env cfg key =
     (Inl (Error (''backup already exists: '' @ key)),
      Some (Error (''backup already exists: '' @ key)), [StorageExists key])"
  using assms by (simp add: backupKeyed_def)

lemma backupKeyed_exists:
  assumes "StorageExists k \<in> set (snd (snd (backupKeyed env cfg key)))"
  shows "k = key \<and> Backup_Idempotent cfg"
  using assms
  by (auto simp: backupKeyed_def Let_def split: if_splits sum.splits option.splits
      dest!: backupStream_actions)

lemma backupLocked_exists:
  assumes "StorageExists k \<in> set (snd (snd (snd (backupLocked env cfg))))"
  shows "k = backupKey env cfg \<and> Backup_Idempotent cfg \<and>
         backupLocked env cfg =
           (fst (backupKeyed env cfg k), fst (snd (backupKeyed env cfg k)), k,
            AdapterValidate # snd (snd (backupKeyed env cfg k)))"
  using assms
  by (auto simp: backupLocked_def backupKey_def Let_def
      split: if_splits sum.splits option.splits dest!: backupKeyed_exists)

lemma Backup_exists:
  assumes "StorageExists k \<in> set (snd (Backup env cfg))"
  shows "\<exists>p. k = backupKey env cfg \<and> Backup_Idempotent cfg \<and>
         Backup env cfg =
           (fst (backupKeyed env cfg k),
            TryLock p # AdapterValidate # snd (snd (backupKeyed env cfg k)) @ [Release] @
            (if notifier_present env
             then [Notify (notification env cfg ''backup'' (fst (snd (backupKeyed env cfg k))) k)]
             else []))"
  using assms
  by (auto simp: Backup_def Acquire_def Let_def
      split: if_splits sum.splits option.splits prod.splits dest!: backupLocked_exists)


section \<open>Facts about the order of the pipeline\<close>


lemma backupStream_shape:
  "\<exists>rest. snd (snd (backupStream env cfg key dump wait)) =
     GoSink key (encodeTask env cfg dump) # GoEncode # DumpWait #
     (case wait of Some err \<Rightarrow> [PipeCloseWithError err, EgWait] | None \<Rightarrow> EgWait # rest) \<and>
     (\<forall>err. wait = Some err \<longrightarrow> fst (backupStream env cfg key dump wait) = Inl err) \<and>
     DumpWait \<notin> set rest"
  by (auto simp: backupStream_def Let_def split: option.splits dest!: backupFinish_actions)

lemma backupKeyed_wait:
  assumes "DumpWait \<in> set (snd (snd (backupKeyed env cfg key)))"
  shows "\<exists>gate reader wait rest.
     adapter_Dump env = Inr (reader, wait) \<and>
     (gate = [] \<or> gate = [StorageExists key]) \<and>
     snd (snd (backupKeyed env cfg key)) =
       gate @ AdapterDump # GoSink key (encodeTask env cfg reader) # GoEncode # DumpWait #
       (case wait of Some err \<Rightarrow> [PipeCloseWithError err, EgWait] | None \<Rightarrow> EgWait # rest) @
       [ReaderClose] \<and>
     (\<forall>err. wait = Some err \<longrightarrow> fst (backupKeyed env cfg key) = Inl err)"
proof -
  from assms obtain dumpStream where d: "adapter_Dump env = Inr dumpStream"
    by (auto simp: backupKeyed_def Let_def split: if_splits sum.splits option.splits)
  obtain reader wait where rw: "dumpStream = (reader, wait)" by (cases dumpStream)
  from backupStream_shape [of env cfg key reader wait] obtain rest where
    s: "snd (snd (backupStream env cfg key reader wait)) =
     GoSink key (encodeTask env cfg reader) # GoEncode # DumpWait #
     (case wait of Some err \<Rightarrow> [PipeCloseWithError err, EgWait] | None \<Rightarrow> EgWait # rest)"
    and w: "\<forall>err. wait = Some err \<longrightarrow> fst (backupStream env cfg key reader wait) = Inl err"
    by blast
  show ?thesis
    using assms d rw s w
    by (auto simp: backupKeyed_def Let_def split: if_splits sum.splits option.splits)
qed

lemma backupLocked_wait:
  assumes "DumpWait \<in> set (snd (snd (snd (backupLocked env cfg))))"
  shows "backupLocked env cfg =
           (fst (backupKeyed env cfg (backupKey env cfg)),
            fst (snd (backupKeyed env cfg (backupKey env cfg))), backupKey env cfg,
            AdapterValidate # snd (snd (backupKeyed env cfg (backupKey env cfg)))) \<and>
         DumpWait \<in> set (snd (snd (backupKeyed env cfg (backupKey env cfg))))"
  using assms
  by (auto simp: backupLocked_def backupKey_def Let_def
      split: if_splits sum.splits option.splits)

lemma Backup_wait:
  assumes "DumpWait \<in> set (snd (Backup env cfg))"
  shows "\<exists>p. Backup env cfg =
           (fst (backupKeyed env cfg (backupKey env cfg)),
            TryLock p # AdapterValidate # snd (snd (backupKeyed env cfg (backupKey env cfg))) @
            [Release] @
            (if notifier_present env
             then [Notify (notification env cfg ''backup''
                     (fst (snd (backupKeyed env cfg (backupKey env cfg)))) (backupKey env cfg))]
             else [])) \<and>
         DumpWait \<in> set (snd (snd (backupKeyed env cfg (backupKey env cfg))))"
  using assms
  by (auto simp: Backup_def Acquire_def Let_def is_notify_def
      split: if_splits sum.splits option.splits prod.splits dest!: backupLocked_wait)

text \<open>
  In every backup that calls \<^verbatim>\<open>Wait\<close> on the dump stream, both tasks have been started
  before the call, the join \<^verbatim>\<open>eg.Wait()\<close> is made and comes after it, and an error of
  \<^verbatim>\<open>Wait\<close> is what the backup returns, after the pipe is closed with it.
\<close>

lemma Backup_wait_before_join:
  "(DumpWait \<in> set (snd (Backup env cfg)) \<longrightarrow>
      (\<exists>pipe. happens_before (GoSink (backupKey env cfg) pipe) DumpWait (snd (Backup env cfg))) \<and>
      happens_before GoEncode DumpWait (snd (Backup env cfg)) \<and>
      happens_before DumpWait EgWait (snd (Backup env cfg)) \<and>
      \<not> happens_before EgWait DumpWait (snd (Backup env cfg)) \<and>
      EgWait \<in> set (snd (Backup env cfg))) \<and>
   (DumpWait \<in> set (snd (Backup env cfg)) \<and> adapter_Dump env = Inr (reader, Some err) \<longrightarrow>
      fst (Backup env cfg) = Inl err \<and>
      happens_before (PipeCloseWithError err) EgWait (snd (Backup env cfg)))"
proof (intro conjI impI)
  assume a: "DumpWait \<in> set (snd (Backup env cfg))"
  from Backup_wait [OF a] obtain p where
    b: "snd (Backup env cfg) =
          TryLock p # AdapterValidate # snd (snd (backupKeyed env cfg (backupKey env cfg))) @
            [Release] @
            (if notifier_present env
             then [Notify (notification env cfg ''backup''
                     (fst (snd (backupKeyed env cfg (backupKey env cfg)))) (backupKey env cfg))]
             else [])"
    and d: "DumpWait \<in> set (snd (snd (backupKeyed env cfg (backupKey env cfg))))"
    by (metis snd_conv)
  from backupKeyed_wait [OF d] obtain gate r wait rest where
    g: "gate = [] \<or> gate = [StorageExists (backupKey env cfg)]"
    and k: "snd (snd (backupKeyed env cfg (backupKey env cfg))) =
       gate @ AdapterDump # GoSink (backupKey env cfg) (encodeTask env cfg r) # GoEncode #
       DumpWait #
       (case wait of Some err \<Rightarrow> [PipeCloseWithError err, EgWait] | None \<Rightarrow> EgWait # rest) @
       [ReaderClose]"
    by blast
  show "\<exists>pipe. happens_before (GoSink (backupKey env cfg) pipe) DumpWait (snd (Backup env cfg))"
    using g by (auto simp: b k happens_before_def)
  show "happens_before GoEncode DumpWait (snd (Backup env cfg))"
    using g by (auto simp: b k happens_before_def)
  show "happens_before DumpWait EgWait (snd (Backup env cfg))"
    using g by (auto simp: b k happens_before_def split: option.splits)
  show "\<not> happens_before EgWait DumpWait (snd (Backup env cfg))"
    using g by (auto simp: b k happens_before_def)
  show "EgWait \<in> set (snd (Backup env cfg))"
    using g by (auto simp: b k split: option.splits)
next
  assume a: "DumpWait \<in> set (snd (Backup env cfg)) \<and> adapter_Dump env = Inr (reader, Some err)"
  from Backup_wait [of env cfg] a obtain p where
    f: "fst (Backup env cfg) = fst (backupKeyed env cfg (backupKey env cfg))"
    and b: "snd (Backup env cfg) =
          TryLock p # AdapterValidate # snd (snd (backupKeyed env cfg (backupKey env cfg))) @
            [Release] @
            (if notifier_present env
             then [Notify (notification env cfg ''backup''
                     (fst (snd (backupKeyed env cfg (backupKey env cfg)))) (backupKey env cfg))]
             else [])"
    and d: "DumpWait \<in> set (snd (snd (backupKeyed env cfg (backupKey env cfg))))"
    by (metis fst_conv snd_conv)
  from backupKeyed_wait [OF d] a obtain gate rest where
    g: "gate = [] \<or> gate = [StorageExists (backupKey env cfg)]"
    and k: "snd (snd (backupKeyed env cfg (backupKey env cfg))) =
       gate @ AdapterDump # GoSink (backupKey env cfg) (encodeTask env cfg reader) # GoEncode #
       DumpWait # [PipeCloseWithError err, EgWait] @ [ReaderClose]"
    and w: "fst (backupKeyed env cfg (backupKey env cfg)) = Inl err"
    by auto
  show "fst (Backup env cfg) = Inl err" by (simp add: f w)
  show "happens_before (PipeCloseWithError err) EgWait (snd (Backup env cfg))"
    using g by (auto simp: b k happens_before_def)
qed

section \<open>Facts about the end of a backup\<close>



lemma backupStream_stat:
  assumes "StorageStat k \<in> set (snd (snd (backupStream env cfg key dump wait)))"
  shows "k = key \<and> wait = None \<and> egWait env key (encodeTask env cfg dump) = None \<and>
     backupStream env cfg key dump wait =
       (fst (backupFinish env cfg key), fst (snd (backupFinish env cfg key)),
        [GoSink key (encodeTask env cfg dump), GoEncode, DumpWait, EgWait] @
        snd (snd (backupFinish env cfg key)))"
  using assms
  by (auto simp: backupStream_def Let_def split: option.splits dest!: backupFinish_actions)

lemma backupKeyed_stat:
  assumes "StorageStat k \<in> set (snd (snd (backupKeyed env cfg key)))"
  shows "\<exists>gate reader. k = key \<and> adapter_Dump env = Inr (reader, None) \<and>
     egWait env key (encodeTask env cfg reader) = None \<and>
     backupKeyed env cfg key =
       (fst (backupFinish env cfg key), fst (snd (backupFinish env cfg key)),
        gate @ [AdapterDump, GoSink key (encodeTask env cfg reader), GoEncode, DumpWait, EgWait] @
        snd (snd (backupFinish env cfg key)) @ [ReaderClose]) \<and>
     (gate = [] \<or> gate = [StorageExists key])"
proof -
  from assms obtain dumpStream where d: "adapter_Dump env = Inr dumpStream"
    by (auto simp: backupKeyed_def Let_def split: if_splits sum.splits option.splits)
  obtain reader wait where rw: "dumpStream = (reader, wait)" by (cases dumpStream)
  from assms d rw have s: "StorageStat k \<in> set (snd (snd (backupStream env cfg key reader wait)))"
    by (auto simp: backupKeyed_def Let_def split: if_splits sum.splits option.splits)
  note b = backupStream_stat [OF s]
  show ?thesis
    using assms d rw b
    by (auto simp: backupKeyed_def Let_def split: if_splits sum.splits option.splits)
qed

lemma backupLocked_stat_eq:
  assumes "StorageStat k \<in> set (snd (snd (snd (backupLocked env cfg))))"
  shows "k = backupKey env cfg \<and>
         backupLocked env cfg =
           (fst (backupKeyed env cfg k), fst (snd (backupKeyed env cfg k)), k,
            AdapterValidate # snd (snd (backupKeyed env cfg k)))"
  using assms
  by (auto simp: backupLocked_def backupKey_def Let_def
      split: if_splits sum.splits option.splits dest!: backupKeyed_stat)

lemma backupLocked_stat:
  assumes "StorageStat k \<in> set (snd (snd (snd (backupLocked env cfg))))"
  shows "k = backupKey env cfg \<and>
         backupLocked env cfg =
           (fst (backupKeyed env cfg k), fst (snd (backupKeyed env cfg k)), k,
            AdapterValidate # snd (snd (backupKeyed env cfg k))) \<and>
         StorageStat k \<in> set (snd (snd (backupKeyed env cfg k)))"
proof -
  note e = backupLocked_stat_eq [OF assms]
  from assms have "StorageStat k \<in> set (AdapterValidate # snd (snd (backupKeyed env cfg k)))"
    using e by simp
  then show ?thesis using e by simp
qed



lemma is_notify_simps:
  "is_notify (Notify event)" "\<not> is_notify (TryLock p)" "\<not> is_notify Release"
  "\<not> is_notify AdapterValidate" "\<not> is_notify (StorageExists k)" "\<not> is_notify AdapterDump"
  "\<not> is_notify ReaderClose" "\<not> is_notify DecoderClose" "\<not> is_notify (GoSink k r)"
  "\<not> is_notify GoEncode" "\<not> is_notify DumpWait" "\<not> is_notify (PipeCloseWithError e)"
  "\<not> is_notify EgWait" "\<not> is_notify (StorageStat k)" "\<not> is_notify (StoragePut k payload)"
  "\<not> is_notify (LogWarn m)" "\<not> is_notify (LogInfo m)" "\<not> is_notify (StorageList p)"
  "\<not> is_notify (StorageDelete k)" "\<not> is_notify (StorageGet k)"
  "\<not> is_notify (AdapterRestore manifest)" "\<not> is_notify (RestoreCopy r)"
  "\<not> is_notify RestoreWriterClose" "\<not> is_notify RestoreWait"
  by (simp_all add: is_notify_def)

















section \<open>Facts about notifications\<close>


lemma backupKeyed_no_notify: "filter is_notify (snd (snd (backupKeyed env cfg key))) = []"
  by (auto simp: filter_empty_conv backupKeyed_def Let_def is_notify_simps
      split: if_splits sum.splits option.splits dest!: backupStream_actions)

lemma backupLocked_no_notify: "filter is_notify (snd (snd (snd (backupLocked env cfg)))) = []"
  by (simp add: backupLocked_def Let_def is_notify_simps backupKeyed_no_notify
      split: sum.splits option.splits)

lemma Acquire_actions: "\<exists>p. snd (Acquire env path) = [TryLock p]"
  by (simp add: Acquire_def Let_def split: sum.splits)

text \<open>Every backup with a notifier sends exactly one notification, the last action.\<close>
lemma Backup_notifies_once:
  "filter is_notify (snd (Backup env cfg)) =
     (if notifier_present env then [last (snd (Backup env cfg))] else [])"
proof -
  obtain p where p: "snd (Acquire env (Global_LockFile cfg)) = [TryLock p]"
    using Acquire_actions by blast
  show ?thesis
    by (cases "fst (Acquire env (Global_LockFile cfg))")
       (simp_all add: Backup_def Let_def p is_notify_simps backupLocked_no_notify)
qed

lemma backupFinish_opErr:
  "fst (snd (backupFinish env cfg key)) = None \<longleftrightarrow> (\<exists>res. fst (backupFinish env cfg key) = Inr res)"
  by (simp add: backupFinish_def Let_def split: sum.splits)

lemma backupStream_opErr:
  "fst (snd (backupStream env cfg key dump wait)) = None \<longleftrightarrow>
     (\<exists>res. fst (backupStream env cfg key dump wait) = Inr res)"
  using backupFinish_opErr [of env cfg key]
  by (simp add: backupStream_def Let_def split: option.splits)

lemma backupKeyed_opErr:
  "fst (snd (backupKeyed env cfg key)) = None \<longleftrightarrow> (\<exists>res. fst (backupKeyed env cfg key) = Inr res)"
proof (cases "adapter_Dump env")
  case (Inl err)
  then show ?thesis by (simp add: backupKeyed_def Let_def split: sum.splits option.splits)
next
  case (Inr dumpStream)
  then show ?thesis
    using backupStream_opErr [of env cfg key "fst dumpStream" "snd dumpStream"]
    by (simp add: backupKeyed_def Let_def split: sum.splits option.splits)
qed

lemma backupLocked_opErr:
  assumes "InWindow env (Schedule_WindowStart cfg) (Schedule_WindowEnd cfg) (Schedule_Timezone cfg) = Inr ok"
  shows "fst (snd (backupLocked env cfg)) = None \<longleftrightarrow> (\<exists>res. fst (backupLocked env cfg) = Inr res)"
  using assms backupKeyed_opErr [of env cfg "backupKey env cfg"]
  by (simp add: backupLocked_def backupKey_def Let_def split: option.splits)

text \<open>
  When \<^verbatim>\<open>InWindow\<close> returns no error, the notification of a backup reports failure
  exactly when the backup returns an error.
\<close>
lemma Backup_status:
  assumes "notifier_present env"
    and "InWindow env (Schedule_WindowStart cfg) (Schedule_WindowEnd cfg) (Schedule_Timezone cfg) = Inr ok"
  shows "\<exists>event. filter is_notify (snd (Backup env cfg)) = [Notify event] \<and>
     (Event_Status event = ''failed'' \<longleftrightarrow> (\<exists>err. fst (Backup env cfg) = Inl err)) \<and>
     (Event_Status event = ''success'' \<longleftrightarrow> (\<exists>res. fst (Backup env cfg) = Inr res))"
proof -
  obtain p where p: "snd (Acquire env (Global_LockFile cfg)) = [TryLock p]"
    using Acquire_actions by blast
  show ?thesis
  proof (cases "fst (Acquire env (Global_LockFile cfg))")
    case (Inl err)
    then show ?thesis
      using assms(1)
      by (simp add: Backup_def Let_def p is_notify_simps notification_def statusFromErr_def)
  next
    case (Inr held)
    show ?thesis
    proof (cases "fst (backupLocked env cfg)")
      case l: (Inl err)
      then have "fst (snd (backupLocked env cfg)) \<noteq> None"
        using backupLocked_opErr [OF assms(2)] by simp
      then show ?thesis
        using assms(1) Inr l
        by (simp add: Backup_def Let_def p is_notify_simps notification_def statusFromErr_def
            backupLocked_no_notify)
    next
      case r: (Inr res)
      then have "fst (snd (backupLocked env cfg)) = None"
        using backupLocked_opErr [OF assms(2)] by simp
      then show ?thesis
        using assms(1) Inr r
        by (simp add: Backup_def Let_def p is_notify_simps notification_def statusFromErr_def
            backupLocked_no_notify)
    qed
  qed
qed


lemma restoreLocked_no_notify: "filter is_notify (snd (snd (restoreLocked env cfg key))) = []"
  by (simp add: restoreLocked_def restoreStream_def readManifest_def
      Let_def is_notify_simps split: sum.splits option.splits)

lemma restoreLocked_opErr: "fst (snd (restoreLocked env cfg key)) = fst (restoreLocked env cfg key)"
  by (simp add: restoreLocked_def Let_def split: sum.splits option.splits)

text \<open>
  Every restore with a notifier sends exactly one notification, which reports failure
  exactly when the restore returns an error.
\<close>
lemma Restore_status:
  assumes "notifier_present env"
  shows "\<exists>event. filter is_notify (snd (Restore env cfg key)) = [Notify event] \<and>
     (Event_Status event = ''failed'' \<longleftrightarrow> fst (Restore env cfg key) \<noteq> None) \<and>
     (Event_Status event = ''success'' \<longleftrightarrow> fst (Restore env cfg key) = None)"
proof -
  obtain p where p: "snd (Acquire env (Global_LockFile cfg)) = [TryLock p]"
    using Acquire_actions by blast
  show ?thesis
    using assms restoreLocked_opErr [of env cfg key]
    by (cases "fst (Acquire env (Global_LockFile cfg))")
       (simp_all add: Restore_def Let_def p is_notify_simps notification_def statusFromErr_def
          restoreLocked_no_notify)
qed


section \<open>Facts about the transform chain\<close>


lemma encodeTask_compress_then_encrypt_selected:
  assumes "Backup_Compression cfg = TypeGzip" and "Backup_Encryption cfg"
    and "ParseKey env (Backup_EncryptionKey cfg) = Inr keyBytes"
    and "sio_EncryptWriter env keyBytes = Inr seal"
  shows "encodeTask env cfg (Inr dumped) = Inr (gzip_NewWriter env (seal dumped))"
  using assms
  by (simp add: encodeTask_def WrapWriter_def EncryptWriter_def TypeGzip_def TypeNone_def)

lemma decodeChain_decrypt_then_decompress:
  assumes "Manifest_Compression manifest = [] \<or> Manifest_Compression manifest = TypeGzip"
    and "Backup_Compression cfg = TypeGzip" and "Backup_Encryption cfg"
    and "Backup_EncryptionKey cfg \<noteq> []"
    and "ParseKey env (Backup_EncryptionKey cfg) = Inr keyBytes"
  shows "decodeChain env cfg manifest stored =
     (case sio_DecryptReader env keyBytes stored of
        Inl err \<Rightarrow> Inl err
      | Inr payload \<Rightarrow> gzip_NewReader env payload)"
  using assms
  by (auto simp: decodeChain_def WrapReader_def DecryptReader_def TypeGzip_def TypeNone_def
      split: sum.splits)

lemma testKey_parses:
  "ParseKey testEnv testKey = Inr (replicate 32 0x2a)"
  by (simp add: ParseKey_def test_defs HasPrefix_def TrimPrefix_def)

lemma test_x1: "testGzip (testSeal (replicate 32 0x2a) [1, 2, 3]) = [0x1f, 0x8b, 0x20, 0x2b, 0x28, 0x29]"
  by (simp add: test_defs)
lemma test_x2: "testSeal (replicate 32 0x2a) (testGzip [1, 2, 3]) = [0x20, 0x35, 0xa1, 0x2b, 0x28, 0x29]"
  by (simp add: test_defs)


lemma testEnv_contract: "codec_contract testEnv"
  by (simp add: codec_contract_def test_defs o_def xor.assoc)

text \<open>
  With at most one transform selected, and the manifest naming the same settings or none,
  the read side gives back what the write side was given.
\<close>
lemma roundTrip_single_transform:
  assumes "codec_contract env"
    and "Manifest_Compression manifest = [] \<or>
         Manifest_Compression manifest = Backup_Compression cfg"
    and "Manifest_Encryption manifest \<longrightarrow> Backup_Encryption cfg"
    and "Backup_Compression cfg \<in> {[], TypeNone, TypeGzip, TypeZstd}"
    and "Backup_Compression cfg = TypeZstd \<longrightarrow> (\<exists>zstd. zstd_NewWriter env = Inr zstd)"
    and "Backup_Encryption cfg \<longrightarrow>
           Backup_EncryptionKey cfg \<noteq> [] \<and>
           (\<exists>keyBytes seal. ParseKey env (Backup_EncryptionKey cfg) = Inr keyBytes \<and>
              sio_EncryptWriter env keyBytes = Inr seal)"
    and "\<not> (Backup_Encryption cfg \<and> Backup_Compression cfg \<in> {TypeGzip, TypeZstd})"
  shows "roundTrip env cfg manifest dumped = Inr dumped"
proof (cases "Backup_Encryption cfg")
  case True
  with assms(7) have c: "Backup_Compression cfg = [] \<or> Backup_Compression cfg = TypeNone"
    using assms(4) by auto
  from True assms(6) obtain keyBytes seal where
    k: "Backup_EncryptionKey cfg \<noteq> []" "ParseKey env (Backup_EncryptionKey cfg) = Inr keyBytes"
       "sio_EncryptWriter env keyBytes = Inr seal"
    by blast
  have d: "sio_DecryptReader env keyBytes (Inr (seal dumped)) = Inr (Inr dumped)"
    using assms(1) k(3) by (simp add: codec_contract_def)
  show ?thesis
    using True c k d assms(2)
    by (auto simp: roundTrip_def encodeTask_def decodeChain_def EncryptWriter_def
        DecryptReader_def WrapReader_def TypeNone_def)
next
  case False
  with assms(3) have m: "\<not> Manifest_Encryption manifest" by simp
  have g: "gzip_NewReader env (Inr (gzip_NewWriter env dumped)) = Inr (Inr dumped)"
    using assms(1) by (simp add: codec_contract_def)
  have z: "\<And>zstd. zstd_NewWriter env = Inr zstd \<Longrightarrow>
      zstd_NewReader env (Inr (zstd dumped)) = Inr (Inr dumped)"
    using assms(1) by (simp add: codec_contract_def)
  show ?thesis
    using False m g z assms(2,4,5)
    by (auto simp: roundTrip_def encodeTask_def decodeChain_def WrapWriter_def WrapReader_def
        TypeNone_def TypeGzip_def TypeZstd_def)
qed


section \<open>Key order and key prefix\<close>

text \<open>
  Claim C8, as amended. For every prefix, every non-empty \<open>dbType\<close> and \<open>dbName\<close>, and
  every backup type and extension that hold no slash:
  (1) for two valid UTC timestamps (years 0000 to 9999) with \<open>t1\<close> before \<open>t2\<close> at
  one-second resolution, the key built for \<open>t1\<close> is lexicographically smaller than the key
  built for \<open>t2\<close>; and
  (2) unless \<^verbatim>\<open>path.Join\<close> cleans the prefix path down to \<^verbatim>\<open>.\<close>, the built key has the
  built prefix path as a strict string prefix.
\<close>

theorem BuildObjectKey_order_and_prefix:
  assumes "dbType \<noteq> []" and "dbName \<noteq> []"
    and "CHR ''/'' \<notin> set backupType" and "CHR ''/'' \<notin> set extension"
  shows "(valid_time t1 \<and> valid_time t2 \<and> time_before t1 t2 \<longrightarrow>
            BuildObjectKey prefix dbType dbName backupType t1 extension <
            BuildObjectKey prefix dbType dbName backupType t2 extension) \<and>
         (BuildPrefix prefix dbType dbName \<noteq> ''.'' \<longrightarrow>
            HasPrefix (BuildObjectKey prefix dbType dbName backupType t extension)
              (BuildPrefix prefix dbType dbName) \<and>
            BuildObjectKey prefix dbType dbName backupType t extension \<noteq>
              BuildPrefix prefix dbType dbName)"
  using key_less [OF assms] key_has_prefix [OF assms] by blast

theorem BuildObjectKey_order_and_prefix_witness:
  "''postgres'' \<noteq> [] \<and> ''appdb'' \<noteq> [] \<and> CHR ''/'' \<notin> set ''full'' \<and>
   CHR ''/'' \<notin> set ''backup.zst'' \<and>
   valid_time \<lparr>Year = 2024, Month = 1, Day = 1, Hour = 10, Minute = 0, Second = 0\<rparr> \<and>
   valid_time \<lparr>Year = 2024, Month = 1, Day = 1, Hour = 10, Minute = 0, Second = 1\<rparr> \<and>
   time_before \<lparr>Year = 2024, Month = 1, Day = 1, Hour = 10, Minute = 0, Second = 0\<rparr>
     \<lparr>Year = 2024, Month = 1, Day = 1, Hour = 10, Minute = 0, Second = 1\<rparr> \<and>
   BuildPrefix ''backups'' ''postgres'' ''appdb'' \<noteq> ''.'' \<and>
   BuildObjectKey ''backups'' ''postgres'' ''appdb'' ''full''
     \<lparr>Year = 2024, Month = 1, Day = 1, Hour = 10, Minute = 0, Second = 0\<rparr> ''backup.zst'' <
   BuildObjectKey ''backups'' ''postgres'' ''appdb'' ''full''
     \<lparr>Year = 2024, Month = 1, Day = 1, Hour = 10, Minute = 0, Second = 1\<rparr> ''backup.zst'' \<and>
   HasPrefix (BuildObjectKey ''backups'' ''postgres'' ''appdb'' ''full''
     \<lparr>Year = 2024, Month = 1, Day = 1, Hour = 10, Minute = 0, Second = 0\<rparr> ''backup.zst'')
     (BuildPrefix ''backups'' ''postgres'' ''appdb'') \<and>
   BuildObjectKey ''backups'' ''postgres'' ''appdb'' ''full''
     \<lparr>Year = 2024, Month = 1, Day = 1, Hour = 10, Minute = 0, Second = 0\<rparr> ''backup.zst'' \<noteq>
     BuildPrefix ''backups'' ''postgres'' ''appdb''"
proof -
  let ?a = "\<lparr>Year = 2024, Month = 1, Day = 1, Hour = 10, Minute = 0, Second = 0\<rparr>"
  let ?b = "\<lparr>Year = 2024, Month = 1, Day = 1, Hour = 10, Minute = 0, Second = 1\<rparr>"
  have h: "''postgres'' \<noteq> []" "''appdb'' \<noteq> []" "CHR ''/'' \<notin> set ''full''"
    "CHR ''/'' \<notin> set ''backup.zst''"
    by simp_all
  have v: "valid_time ?a" "valid_time ?b" "time_before ?a ?b"
    by (simp_all add: valid_time_def time_before_def time_fields_def)
  have p: "BuildPrefix ''backups'' ''postgres'' ''appdb'' \<noteq> ''.''"
    by (simp add: eval_simps)
  show ?thesis
    using BuildObjectKey_order_and_prefix [OF h, of ?a ?b "''backups''" ?a] h v p
    by blast
qed

text \<open>
  The claim as stated, for every backup type, every extension and every pair of timestamps,
  fails on the code: with \<open>dbName = ".."\<close> the prefix path is cleaned to \<^verbatim>\<open>.\<close> and the key
  to \<^verbatim>\<open>20240101T100000Z_full.backup\<close>, which does not start with it; the year 10000 is
  printed with five digits and sorts before the year 9999; and a backup type \<^verbatim>\<open>/../x\<close>
  makes \<^verbatim>\<open>path.Join\<close> remove the timestamp from the key, so that the keys of two different
  instants are equal.
\<close>

theorem BuildObjectKey_counterexample:
  "\<not> HasPrefix
       (BuildObjectKey [] ''a'' ''..'' ''full''
          \<lparr>Year = 2024, Month = 1, Day = 1, Hour = 10, Minute = 0, Second = 0\<rparr> ''backup'')
       (BuildPrefix [] ''a'' ''..'') \<and>
   time_before \<lparr>Year = 9999, Month = 12, Day = 31, Hour = 23, Minute = 59, Second = 59\<rparr>
     \<lparr>Year = 10000, Month = 1, Day = 1, Hour = 0, Minute = 0, Second = 0\<rparr> \<and>
   \<not> BuildObjectKey ''backups'' ''postgres'' ''appdb'' ''full''
       \<lparr>Year = 9999, Month = 12, Day = 31, Hour = 23, Minute = 59, Second = 59\<rparr> ''backup'' <
     BuildObjectKey ''backups'' ''postgres'' ''appdb'' ''full''
       \<lparr>Year = 10000, Month = 1, Day = 1, Hour = 0, Minute = 0, Second = 0\<rparr> ''backup'' \<and>
   time_before \<lparr>Year = 2024, Month = 1, Day = 1, Hour = 10, Minute = 0, Second = 0\<rparr>
     \<lparr>Year = 2024, Month = 1, Day = 1, Hour = 10, Minute = 0, Second = 1\<rparr> \<and>
   \<not> BuildObjectKey ''backups'' ''postgres'' ''appdb'' ''/../x''
       \<lparr>Year = 2024, Month = 1, Day = 1, Hour = 10, Minute = 0, Second = 0\<rparr> ''backup'' <
     BuildObjectKey ''backups'' ''postgres'' ''appdb'' ''/../x''
       \<lparr>Year = 2024, Month = 1, Day = 1, Hour = 10, Minute = 0, Second = 1\<rparr> ''backup''"
  by (simp add: eval_simps time_before_def time_fields_def)


section \<open>Artifacts and manifests are told apart\<close>

text \<open>
  Claim C10. For every compression setting and encryption flag, the extension built for a
  backup begins with \<^verbatim>\<open>backup\<close> and does not end with the manifest suffix
  \<^verbatim>\<open>.manifest.json\<close>; the manifest key of any key ends with that suffix; hence the
  suffix test behind \<^verbatim>\<open>IsManifest\<close> is false on every artifact key that \<^verbatim>\<open>Backup\<close>
  builds, for any prefix, database type, database name, backup type and instant, and true
  on its sibling manifest key.
\<close>

theorem artifact_key_never_manifest:
  "HasPrefix (buildExtension compression encryption) ''backup'' \<and>
   \<not> HasSuffix (buildExtension compression encryption) ManifestSuffix \<and>
   HasSuffix (ManifestKey key) ManifestSuffix \<and>
   \<not> IsManifestKey (BuildObjectKey prefix dbType dbName backupType when
         (buildExtension compression encryption)) \<and>
   IsManifestKey (ManifestKey (BuildObjectKey prefix dbType dbName backupType when
         (buildExtension compression encryption)))"
proof -
  let ?ext = "buildExtension compression encryption"
  note p = buildExtension_props [of compression encryption]
  have "?ext = [] @ ?ext" by simp
  then have 1: "\<not> HasSuffix ?ext ManifestSuffix"
    using p(1) p(4) by (rule not_manifest_by_last)
  obtain w where "BuildObjectKey prefix dbType dbName backupType when ?ext = w @ ?ext"
    using key_ends_with_extension [OF p(1,2,3)] by blast
  then have 2: "\<not> IsManifestKey (BuildObjectKey prefix dbType dbName backupType when ?ext)"
    unfolding IsManifestKey_def using p(1) p(4) by (rule not_manifest_by_last)
  have 3: "\<And>k. HasSuffix (ManifestKey k) ManifestSuffix"
    by (simp add: HasSuffix_iff ManifestKey_def)
  show ?thesis using p(5) 1 2 3 by (simp add: IsManifestKey_def)
qed

theorem artifact_key_never_manifest_witness:
  "HasPrefix (buildExtension ''gzip'' True) ''backup'' \<and>
   \<not> HasSuffix (buildExtension ''gzip'' True) ManifestSuffix \<and>
   HasSuffix (ManifestKey ''backups/postgres/appdb/20240101T100000Z_full.backup.gz.enc'')
     ManifestSuffix \<and>
   \<not> IsManifestKey (BuildObjectKey ''backups'' ''postgres'' ''appdb'' ''full''
         \<lparr>Year = 2024, Month = 1, Day = 1, Hour = 10, Minute = 0, Second = 0\<rparr>
         (buildExtension ''gzip'' True)) \<and>
   IsManifestKey (ManifestKey (BuildObjectKey ''backups'' ''postgres'' ''appdb'' ''full''
         \<lparr>Year = 2024, Month = 1, Day = 1, Hour = 10, Minute = 0, Second = 0\<rparr>
         (buildExtension ''gzip'' True)))"
  by (rule artifact_key_never_manifest)

section \<open>The configuration envelope fails closed\<close>

text \<open>
  Claim C9. For every input byte string and every 32-byte key, \<^verbatim>\<open>DecryptConfig\<close> returns
  an error and no bytes whenever the input is shorter than the 18-byte header, its first
  four bytes differ from the magic tag, the big-endian number in its bytes 4 and 5 differs
  from the supported version 1, or the authenticated decryption of the rest under the
  nonce in bytes 6 to 17 fails. It never returns bytes together with an error, and when
  it returns no error the bytes are those that the authenticated decryption returned
  without error, whole.
\<close>

theorem DecryptConfig_fails_closed:
  assumes "length key = 32"
  shows "(length c < 18 \<or> take 4 c \<noteq> configMagic \<or>
          256 * unat (c ! 4) + unat (c ! 5) \<noteq> 1 \<or>
          snd (Open key (take 12 (drop 6 c)) (drop 18 c)) \<noteq> None \<longrightarrow>
            (\<exists>err. DecryptConfig Open c key = (None, Some err))) \<and>
         (snd (DecryptConfig Open c key) \<noteq> None \<longrightarrow> fst (DecryptConfig Open c key) = None) \<and>
         (snd (DecryptConfig Open c key) = None \<longrightarrow>
            18 \<le> length c \<and> take 4 c = configMagic \<and>
            256 * unat (c ! 4) + unat (c ! 5) = 1 \<and>
            Open key (take 12 (drop 6 c)) (drop 18 c) = (fst (DecryptConfig Open c key), None))"
  unfolding DecryptConfig_cases [OF assms]
  by (cases "Open key (take 12 (drop 6 c)) (drop 18 c)") auto

theorem DecryptConfig_fails_closed_witness:
  "length (replicate 32 (7 :: byte)) = 32 \<and>
   snd (testOpen (replicate 32 7) (take 12 (drop 6 (configMagic @ [0, 1] @ replicate 12 0 @ [1, 2, 3, 9])))
          (drop 18 (configMagic @ [0, 1] @ replicate 12 0 @ [1, 2, 3, 9]))) \<noteq> None \<and>
   (\<exists>err. DecryptConfig testOpen (configMagic @ [0, 1] @ replicate 12 0 @ [1, 2, 3, 9])
           (replicate 32 7) = (None, Some err)) \<and>
   DecryptConfig testOpen (configMagic @ [0, 1] @ replicate 12 0 @ [1, 2, 3, 9]) (replicate 32 7) =
     (None, Some (Error ''cipher: message authentication failed'')) \<and>
   DecryptConfig testOpen (configMagic @ [0, 1] @ replicate 12 0 @ [1, 2, 3, 230]) (replicate 32 7) =
     (Some [1, 2, 3], None) \<and>
   DecryptConfig testOpen (configMagic @ [0, 2] @ replicate 12 0 @ [1, 2, 3, 230]) (replicate 32 7) =
     (None, Some (Error ''unsupported config version 2''))"
proof -
  let ?key = "replicate 32 (7 :: byte)"
  let ?bad = "configMagic @ [0, 1] @ replicate 12 0 @ [1, 2, 3, 9 :: byte]"
  let ?good = "configMagic @ [0, 1] @ replicate 12 0 @ [1, 2, 3, 230 :: byte]"
  let ?v2 = "configMagic @ [0, 2] @ replicate 12 0 @ [1, 2, 3, 230 :: byte]"
  have k: "length ?key = 32" by simp
  have r12: "replicate 12 (0 :: byte) = [0, 0, 0, 0, 0, 0, 0, 0, 0, 0, 0, 0]"
    by (simp add: numeral_eq_Suc)
  have r32: "sum_list (replicate 32 (7 :: byte)) = 224"
    by (simp add: sum_list_replicate)
  have o1: "testOpen ?key (take 12 (drop 6 ?bad)) (drop 18 ?bad) =
      (None, Some (Error ''cipher: message authentication failed''))"
    by (simp add: testOpen_def configMagic_def r12 r32)
  have o2: "testOpen ?key (take 12 (drop 6 ?good)) (drop 18 ?good) = (Some [1, 2, 3], None)"
    by (simp add: testOpen_def configMagic_def r12 r32)
  have b: "18 \<le> length ?bad \<and> take 4 ?bad = configMagic \<and> ?bad ! 4 = 0 \<and> ?bad ! 5 = 1"
    by (simp add: configMagic_def r12)
  have g: "18 \<le> length ?good \<and> take 4 ?good = configMagic \<and> ?good ! 4 = 0 \<and> ?good ! 5 = 1"
    by (simp add: configMagic_def r12)
  have v: "18 \<le> length ?v2 \<and> take 4 ?v2 = configMagic \<and> ?v2 ! 4 = 0 \<and> ?v2 ! 5 = 2 \<and>
           Uint16 (take 2 (drop 4 ?v2)) = 2"
    by (simp add: configMagic_def r12 Uint16_def)
  have d1: "DecryptConfig testOpen ?bad ?key =
      (None, Some (Error ''cipher: message authentication failed''))"
    unfolding DecryptConfig_cases [OF k] using o1 b by simp
  have e: "\<exists>err. DecryptConfig testOpen ?bad ?key = (None, Some err)"
    using DecryptConfig_fails_closed [OF k, of ?bad testOpen] o1 by simp
  have d2: "DecryptConfig testOpen ?good ?key = (Some [1, 2, 3], None)"
    unfolding DecryptConfig_cases [OF k] using o2 g by simp
  have d3: "DecryptConfig testOpen ?v2 ?key = (None, Some (Error ''unsupported config version 2''))"
    unfolding DecryptConfig_cases [OF k] using v by (simp add: decimal_numeral digit_table)
  have s: "snd (testOpen ?key (take 12 (drop 6 ?bad)) (drop 18 ?bad)) \<noteq> None"
    using o1 by simp
  from k s e d1 d2 d3 show ?thesis by (intro conjI)
qed


section \<open>The retention pass follows the specified algorithm while the sizes fit in 64 bits\<close>

text \<open>
  Claim C5, as amended. The pass does nothing (it does not even list) when all three
  policy fields are zero. For every retention policy and every object listing whose
  artifacts have sizes of at least zero that add up to less than \<open>2 ^ 63\<close> bytes, the pass
  makes exactly the deletions of the algorithm of the specification, in which sizes and
  totals are unbounded integers: it lists the prefix of the database, leaves manifest
  objects out, sorts the artifacts newest first (any sort that meets the contract of
  \<^verbatim>\<open>sort.Slice\<close>), and walks them: the artifact at position \<open>i\<close> is retained if
  \<open>keep_last > 0\<close> and \<open>i < keep_last\<close>, or if \<open>keep_days > 0\<close> and it was modified after
  now minus \<open>keep_days\<close> days, or if \<open>max_bytes > 0\<close> and the remaining total size is at
  most \<open>max_bytes\<close>; otherwise the artifact and then its sibling manifest are deleted and
  its size leaves the running total. For artifacts aged 0, 1, 2, 3 and 10 days of 10 bytes
  each under \<open>keep_last = 2\<close>, \<open>keep_days = 5\<close>, \<open>max_bytes = 0\<close>, only the artifact aged
  10 days is deleted.
\<close>

theorem applyRetention_follows_spec:
  "(KeepLast policy = 0 \<and> KeepDays policy = 0 \<and> MaxBytes policy = 0 \<longrightarrow>
      applyRetention srt AddDate listing now policy prefix dbType dbName = (None, [])) \<and>
   (listing (BuildPrefix prefix dbType dbName) = Inr objects \<and> sort_contract srt \<and>
    sizes_fit (filter (\<lambda>obj. \<not> IsManifest obj) objects) \<longrightarrow>
      applyRetention srt AddDate listing now policy prefix dbType dbName =
        (None,
         (if KeepDays policy = 0 \<and> KeepLast policy = 0 \<and> MaxBytes policy = 0 then []
          else [StorageList (BuildPrefix prefix dbType dbName)]) @
         map StorageDelete
           (spec_retention policy (AddDate now (- KeepDays policy))
              (srt (filter (\<lambda>obj. \<not> IsManifest obj) objects)))) \<and>
      newest_first (srt (filter (\<lambda>obj. \<not> IsManifest obj) objects)) \<and>
      mset (srt (filter (\<lambda>obj. \<not> IsManifest obj) objects)) =
        mset (filter (\<lambda>obj. \<not> IsManifest obj) objects)) \<and>
   applyRetention sortSlice AddDateUTC (\<lambda>prefix. Inr exampleListing) exampleNow
       \<lparr>KeepLast = 2, KeepDays = 5, MaxBytes = 0\<rparr> [] ''pg'' ''app'' =
     (None, [StorageList ''pg/app'', StorageDelete ''pg/app/age10.backup'',
             StorageDelete ''pg/app/age10.backup.manifest.json''])"
proof (intro conjI impI)
  assume "KeepLast policy = 0 \<and> KeepDays policy = 0 \<and> MaxBytes policy = 0"
  then show "applyRetention srt AddDate listing now policy prefix dbType dbName = (None, [])"
    by (simp add: applyRetention_def)
next
  assume a: "listing (BuildPrefix prefix dbType dbName) = Inr objects \<and> sort_contract srt \<and>
    sizes_fit (filter (\<lambda>obj. \<not> IsManifest obj) objects)"
  then have m: "mset (srt (filter (\<lambda>obj. \<not> IsManifest obj) objects)) =
      mset (filter (\<lambda>obj. \<not> IsManifest obj) objects)"
    and n: "newest_first (srt (filter (\<lambda>obj. \<not> IsManifest obj) objects))"
    by (simp_all add: sort_contract_def)
  from a have l: "listing (BuildPrefix prefix dbType dbName) = Inr objects"
    and f: "sizes_fit (filter (\<lambda>obj. \<not> IsManifest obj) objects)"
    by simp_all
  show "applyRetention srt AddDate listing now policy prefix dbType dbName =
        (None,
         (if KeepDays policy = 0 \<and> KeepLast policy = 0 \<and> MaxBytes policy = 0 then []
          else [StorageList (BuildPrefix prefix dbType dbName)]) @
         map StorageDelete
           (spec_retention policy (AddDate now (- KeepDays policy))
              (srt (filter (\<lambda>obj. \<not> IsManifest obj) objects))))"
    using l m f by (rule applyRetention_listed)
  show "newest_first (srt (filter (\<lambda>obj. \<not> IsManifest obj) objects))" by (rule n)
  show "mset (srt (filter (\<lambda>obj. \<not> IsManifest obj) objects)) =
      mset (filter (\<lambda>obj. \<not> IsManifest obj) objects)" by (rule m)
next
  have m: "mset (sortSlice (filter (\<lambda>obj. \<not> IsManifest obj) exampleListing)) =
      mset (filter (\<lambda>obj. \<not> IsManifest obj) exampleListing)"
    using sortSlice_contract by (simp add: sort_contract_def)
  have "applyRetention sortSlice AddDateUTC (\<lambda>prefix. Inr exampleListing) exampleNow
       \<lparr>KeepLast = 2, KeepDays = 5, MaxBytes = 0\<rparr> [] ''pg'' ''app'' =
     (None, [StorageList ''pg/app''] @ map StorageDelete
        (spec_retention \<lparr>KeepLast = 2, KeepDays = 5, MaxBytes = 0\<rparr> (AddDateUTC exampleNow (- 5))
          (sortSlice (filter (\<lambda>obj. \<not> IsManifest obj) exampleListing))))"
    using applyRetention_listed [where listing = "\<lambda>prefix. Inr exampleListing"
        and objects = exampleListing and srt = sortSlice and AddDate = AddDateUTC
        and now = exampleNow and policy = "\<lparr>KeepLast = 2, KeepDays = 5, MaxBytes = 0\<rparr>"
        and prefix = "[]" and dbType = "''pg''" and dbName = "''app''"] m example_fits
    by (simp add: example_prefix)
  then show "applyRetention sortSlice AddDateUTC (\<lambda>prefix. Inr exampleListing) exampleNow
       \<lparr>KeepLast = 2, KeepDays = 5, MaxBytes = 0\<rparr> [] ''pg'' ''app'' =
     (None, [StorageList ''pg/app'', StorageDelete ''pg/app/age10.backup'',
             StorageDelete ''pg/app/age10.backup.manifest.json''])"
    by (simp add: example_artifacts example_walk)
qed

theorem applyRetention_follows_spec_witness:
  "KeepLast \<lparr>KeepLast = 0, KeepDays = 0, MaxBytes = 0\<rparr> = 0 \<and>
   KeepDays \<lparr>KeepLast = 0, KeepDays = 0, MaxBytes = 0\<rparr> = 0 \<and>
   MaxBytes \<lparr>KeepLast = 0, KeepDays = 0, MaxBytes = 0\<rparr> = 0 \<and>
   applyRetention sortSlice AddDateUTC (\<lambda>prefix. Inr exampleListing) exampleNow
       \<lparr>KeepLast = 0, KeepDays = 0, MaxBytes = 0\<rparr> [] ''pg'' ''app'' = (None, []) \<and>
   (\<lambda>prefix. Inr exampleListing) (BuildPrefix [] ''pg'' ''app'') = Inr exampleListing \<and>
   sort_contract sortSlice \<and>
   sizes_fit (filter (\<lambda>obj. \<not> IsManifest obj) exampleListing) \<and>
   applyRetention sortSlice AddDateUTC (\<lambda>prefix. Inr exampleListing) exampleNow
       \<lparr>KeepLast = 0, KeepDays = 0, MaxBytes = 1\<rparr> [] ''pg'' ''app'' =
     (None,
      [StorageList (BuildPrefix [] ''pg'' ''app'')] @
      map StorageDelete
        (spec_retention \<lparr>KeepLast = 0, KeepDays = 0, MaxBytes = 1\<rparr>
           (AddDateUTC exampleNow (- KeepDays \<lparr>KeepLast = 0, KeepDays = 0, MaxBytes = 1\<rparr>))
           (sortSlice (filter (\<lambda>obj. \<not> IsManifest obj) exampleListing)))) \<and>
   newest_first (sortSlice (filter (\<lambda>obj. \<not> IsManifest obj) exampleListing)) \<and>
   mset (sortSlice (filter (\<lambda>obj. \<not> IsManifest obj) exampleListing)) =
     mset (filter (\<lambda>obj. \<not> IsManifest obj) exampleListing)"
proof -
  let ?zero = "\<lparr>KeepLast = 0, KeepDays = 0, MaxBytes = 0\<rparr>"
  let ?one = "\<lparr>KeepLast = 0, KeepDays = 0, MaxBytes = 1\<rparr>"
  let ?listing = "\<lambda>prefix :: string. (Inr exampleListing :: error + ObjectInfo list)"
  have z: "KeepLast ?zero = 0 \<and> KeepDays ?zero = 0 \<and> MaxBytes ?zero = 0" by simp
  have l: "?listing (BuildPrefix [] ''pg'' ''app'') = Inr exampleListing" by simp
  have f: "sizes_fit (filter (\<lambda>obj. \<not> IsManifest obj) exampleListing)"
    by (simp add: sizes_fit_def total_size_def exampleListing_def exampleObject_def
        IsManifestKey_def HasSuffix_def ManifestSuffix_def)
  note t0 = applyRetention_follows_spec [of ?zero sortSlice AddDateUTC ?listing exampleNow
      "[]" "''pg''" "''app''" exampleListing]
  note t1 = applyRetention_follows_spec [of ?one sortSlice AddDateUTC ?listing exampleNow
      "[]" "''pg''" "''app''" exampleListing]
  have a: "applyRetention sortSlice AddDateUTC ?listing exampleNow ?zero [] ''pg'' ''app'' = (None, [])"
    using t0 z by blast
  have c: "applyRetention sortSlice AddDateUTC ?listing exampleNow ?one [] ''pg'' ''app'' =
     (None,
      [StorageList (BuildPrefix [] ''pg'' ''app'')] @
      map StorageDelete
        (spec_retention ?one (AddDateUTC exampleNow (- KeepDays ?one))
           (sortSlice (filter (\<lambda>obj. \<not> IsManifest obj) exampleListing)))) \<and>
     newest_first (sortSlice (filter (\<lambda>obj. \<not> IsManifest obj) exampleListing)) \<and>
     mset (sortSlice (filter (\<lambda>obj. \<not> IsManifest obj) exampleListing)) =
       mset (filter (\<lambda>obj. \<not> IsManifest obj) exampleListing)"
    using t1 l f sortSlice_contract by simp
  from z l sortSlice_contract f a c show ?thesis by (intro conjI) simp_all
qed

text \<open>
  The claim as first stated, for every object listing, fails where the sum of the sizes
  leaves the range of \<^verbatim>\<open>int64\<close>. The store lists two artifacts of \<open>2 ^ 62\<close> bytes each
  and the policy is \<open>max_bytes = 1\<close>: the total of the specification is \<open>2 ^ 63\<close>, more
  than one byte, so that its algorithm deletes both artifacts and their manifests;
  \<^verbatim>\<open>totalSize\<close> of the code wraps to \<open>- 2 ^ 63\<close>, which is at most one, and the pass lists
  the prefix and deletes nothing.
\<close>

theorem applyRetention_overflow_counterexample:
  "sortSlice (filter (\<lambda>obj. \<not> IsManifest obj) hugeListing) = hugeListing \<and>
   total_size hugeListing = 2 ^ 63 \<and>
   spec_retention \<lparr>KeepLast = 0, KeepDays = 0, MaxBytes = 1\<rparr> (AddDateUTC 3 0) hugeListing =
     [''pg/app/new.backup'', ''pg/app/new.backup.manifest.json'',
      ''pg/app/old.backup'', ''pg/app/old.backup.manifest.json''] \<and>
   applyRetention sortSlice AddDateUTC (\<lambda>prefix. Inr hugeListing) 3
       \<lparr>KeepLast = 0, KeepDays = 0, MaxBytes = 1\<rparr> [] ''pg'' ''app'' =
     (None, [StorageList ''pg/app''])"
  using huge_sorted huge_total huge_spec huge_run by (intro conjI)

section \<open>The idempotency gate\<close>

text \<open>
  Claim C6. For every backup with \<open>idempotent = true\<close> in which the storage backend is
  asked whether the artifact key exists and answers that it does, the key asked for is the
  key that the backup computed, the backup returns the error \<^verbatim>\<open>backup already exists\<close>
  for that key, no dump is started, and no task that puts the artifact, no put of a
  manifest and no deletion takes place: the store is left as it was.
\<close>

theorem idempotency_gate:
  assumes "Backup_Idempotent cfg"
    and "StorageExists key \<in> set (snd (Backup env cfg))"
    and "storage_Exists env key = Inr True"
  shows "key = backupKey env cfg \<and>
         fst (Backup env cfg) = Inl (Error (''backup already exists: '' @ key)) \<and>
         AdapterDump \<notin> set (snd (Backup env cfg)) \<and>
         filter is_write (snd (Backup env cfg)) = []"
proof -
  from Backup_exists [OF assms(2)] obtain p where
    k: "key = backupKey env cfg" and
    b: "Backup env cfg =
           (fst (backupKeyed env cfg key),
            TryLock p # AdapterValidate # snd (snd (backupKeyed env cfg key)) @ [Release] @
            (if notifier_present env
             then [Notify (notification env cfg ''backup'' (fst (snd (backupKeyed env cfg key))) key)]
             else []))"
    by blast
  show ?thesis
    unfolding b backupKeyed_gate [OF assms(1,3)] using k by (simp add: is_write_def)
qed

theorem idempotency_gate_witness:
  "Backup_Idempotent (testCfg\<lparr>Backup_Idempotent := True\<rparr>) \<and>
   StorageExists ''backups/postgres/appdb/20240101T100000Z_full.backup''
     \<in> set (snd (Backup (testEnv\<lparr>storage_Exists := (\<lambda>key. Inr True)\<rparr>)
                     (testCfg\<lparr>Backup_Idempotent := True\<rparr>))) \<and>
   storage_Exists (testEnv\<lparr>storage_Exists := (\<lambda>key. Inr True)\<rparr>)
     ''backups/postgres/appdb/20240101T100000Z_full.backup'' = Inr True \<and>
   fst (Backup (testEnv\<lparr>storage_Exists := (\<lambda>key. Inr True)\<rparr>)
          (testCfg\<lparr>Backup_Idempotent := True\<rparr>)) =
     Inl (Error ''backup already exists: backups/postgres/appdb/20240101T100000Z_full.backup'') \<and>
   AdapterDump \<notin> set (snd (Backup (testEnv\<lparr>storage_Exists := (\<lambda>key. Inr True)\<rparr>)
                                (testCfg\<lparr>Backup_Idempotent := True\<rparr>))) \<and>
   filter is_write (snd (Backup (testEnv\<lparr>storage_Exists := (\<lambda>key. Inr True)\<rparr>)
                              (testCfg\<lparr>Backup_Idempotent := True\<rparr>))) = []"
proof -
  let ?env = "testEnv\<lparr>storage_Exists := (\<lambda>key. Inr True)\<rparr>"
  let ?cfg = "testCfg\<lparr>Backup_Idempotent := True\<rparr>"
  let ?key = "''backups/postgres/appdb/20240101T100000Z_full.backup''"
  have i: "Backup_Idempotent ?cfg" by simp
  have t: "snd (Backup ?env ?cfg) =
      [TryLock ''/tmp/dbu.lock'', AdapterValidate, StorageExists ?key, Release,
       Notify \<lparr>Event_Type = ''backup'', Event_Message = ''backup appdb'',
         Event_Status = ''failed'', Event_Database = ''appdb'', Event_DBType = ''postgres'',
         Event_StartedAt = 1704103200000000000, Event_EndedAt = 1704103202000000000,
         Event_Duration = ''2s'', Event_Key = ?key,
         Event_Error = ''backup already exists: backups/postgres/appdb/20240101T100000Z_full.backup''\<rparr>]"
    by (simp add: app_defs test_defs eval_simps)
  have m: "StorageExists ?key \<in> set (snd (Backup ?env ?cfg))" by (simp add: t)
  have e: "storage_Exists ?env ?key = Inr True" by simp
  from idempotency_gate [OF i m e] i m e show ?thesis by simp
qed


section \<open>The producer is awaited before the pipeline tasks are joined\<close>

text \<open>
  Claim C3 at the input where the code departs from it. The claim has the producer's
  \<^verbatim>\<open>Wait\<close> awaited only after both pipeline tasks have completed. In a backup in which
  every call succeeds, \<^verbatim>\<open>Backup\<close> starts the sink task and the encoding task, calls
  \<^verbatim>\<open>dumpStream.Wait()\<close> at once, and joins the tasks with \<^verbatim>\<open>eg.Wait()\<close> only after
  \<^verbatim>\<open>Wait\<close> has returned: the join is made, and it comes after \<^verbatim>\<open>Wait\<close>, not before
  it. The second half of the claim holds on the code: when \<^verbatim>\<open>Wait\<close> reports an error,
  the backup returns that error and notifies a failure.
\<close>

theorem producer_awaited_before_join:
  "Backup testEnv testCfg =
     (Inr \<lparr>Result_Manifest =
            \<lparr>Manifest_ID = ''appdb-1704103201000000000'',
             Manifest_Key = ''backups/postgres/appdb/20240101T100000Z_full.backup'',
             Manifest_DatabaseType = ''postgres'', Manifest_Database = ''appdb'',
             Manifest_BackupType = ''full'', Manifest_Compression = [],
             Manifest_Encryption = False, Manifest_CreatedAt = 1704103201000000000,
             Manifest_SizeBytes = 6, Manifest_Tables = [], Manifest_Collections = [],
             Manifest_ToolVersion = ''dev''\<rparr>,
          Result_Key = ''backups/postgres/appdb/20240101T100000Z_full.backup''\<rparr>,
      [TryLock ''/tmp/dbu.lock'', AdapterValidate, AdapterDump,
      GoSink ''backups/postgres/appdb/20240101T100000Z_full.backup'' (Inr [1, 2, 3]),
      GoEncode, DumpWait, EgWait,
      StorageStat ''backups/postgres/appdb/20240101T100000Z_full.backup'',
      StoragePut ''backups/postgres/appdb/20240101T100000Z_full.backup.manifest.json''
        [0x7b, 0x7d],
      ReaderClose, Release,
      Notify \<lparr>Event_Type = ''backup'', Event_Message = ''backup appdb'',
        Event_Status = ''success'', Event_Database = ''appdb'', Event_DBType = ''postgres'',
        Event_StartedAt = 1704103200000000000, Event_EndedAt = 1704103202000000000,
        Event_Duration = ''2s'',
        Event_Key = ''backups/postgres/appdb/20240101T100000Z_full.backup'',
        Event_Error = []\<rparr>]) \<and>
   DumpWait \<in> set (snd (Backup testEnv testCfg)) \<and>
   EgWait \<in> set (snd (Backup testEnv testCfg)) \<and>
   happens_before DumpWait EgWait (snd (Backup testEnv testCfg)) \<and>
   \<not> happens_before EgWait DumpWait (snd (Backup testEnv testCfg)) \<and>
   Backup (testEnv\<lparr>adapter_Dump := Inr (Inr [1, 2, 3], Some (Error ''exit status 1''))\<rparr>) testCfg =
     (Inl (Error ''exit status 1''),
      [TryLock ''/tmp/dbu.lock'', AdapterValidate, AdapterDump,
      GoSink ''backups/postgres/appdb/20240101T100000Z_full.backup'' (Inr [1, 2, 3]),
      GoEncode, DumpWait, PipeCloseWithError (Error ''exit status 1''), EgWait, ReaderClose,
      Release,
      Notify \<lparr>Event_Type = ''backup'', Event_Message = ''backup appdb'',
        Event_Status = ''failed'', Event_Database = ''appdb'', Event_DBType = ''postgres'',
        Event_StartedAt = 1704103200000000000, Event_EndedAt = 1704103202000000000,
        Event_Duration = ''2s'',
        Event_Key = ''backups/postgres/appdb/20240101T100000Z_full.backup'',
        Event_Error = ''exit status 1''\<rparr>])"
proof -
  have t: "Backup testEnv testCfg =
     (Inr \<lparr>Result_Manifest =
            \<lparr>Manifest_ID = ''appdb-1704103201000000000'',
             Manifest_Key = ''backups/postgres/appdb/20240101T100000Z_full.backup'',
             Manifest_DatabaseType = ''postgres'', Manifest_Database = ''appdb'',
             Manifest_BackupType = ''full'', Manifest_Compression = [],
             Manifest_Encryption = False, Manifest_CreatedAt = 1704103201000000000,
             Manifest_SizeBytes = 6, Manifest_Tables = [], Manifest_Collections = [],
             Manifest_ToolVersion = ''dev''\<rparr>,
          Result_Key = ''backups/postgres/appdb/20240101T100000Z_full.backup''\<rparr>,
      [TryLock ''/tmp/dbu.lock'', AdapterValidate, AdapterDump,
      GoSink ''backups/postgres/appdb/20240101T100000Z_full.backup'' (Inr [1, 2, 3]),
      GoEncode, DumpWait, EgWait,
      StorageStat ''backups/postgres/appdb/20240101T100000Z_full.backup'',
      StoragePut ''backups/postgres/appdb/20240101T100000Z_full.backup.manifest.json''
        [0x7b, 0x7d],
      ReaderClose, Release,
      Notify \<lparr>Event_Type = ''backup'', Event_Message = ''backup appdb'',
        Event_Status = ''success'', Event_Database = ''appdb'', Event_DBType = ''postgres'',
        Event_StartedAt = 1704103200000000000, Event_EndedAt = 1704103202000000000,
        Event_Duration = ''2s'',
        Event_Key = ''backups/postgres/appdb/20240101T100000Z_full.backup'',
        Event_Error = []\<rparr>])"
    by (simp add: app_defs test_defs eval_simps)
  have e: "Backup (testEnv\<lparr>adapter_Dump := Inr (Inr [1, 2, 3], Some (Error ''exit status 1''))\<rparr>) testCfg =
     (Inl (Error ''exit status 1''),
      [TryLock ''/tmp/dbu.lock'', AdapterValidate, AdapterDump,
      GoSink ''backups/postgres/appdb/20240101T100000Z_full.backup'' (Inr [1, 2, 3]),
      GoEncode, DumpWait, PipeCloseWithError (Error ''exit status 1''), EgWait, ReaderClose,
      Release,
      Notify \<lparr>Event_Type = ''backup'', Event_Message = ''backup appdb'',
        Event_Status = ''failed'', Event_Database = ''appdb'', Event_DBType = ''postgres'',
        Event_StartedAt = 1704103200000000000, Event_EndedAt = 1704103202000000000,
        Event_Duration = ''2s'',
        Event_Key = ''backups/postgres/appdb/20240101T100000Z_full.backup'',
        Event_Error = ''exit status 1''\<rparr>])"
    by (simp add: app_defs test_defs eval_simps)
  show ?thesis unfolding t e by (simp add: happens_before_def)
qed

theorem producer_awaited_before_join_witness:
  "DumpWait \<in> set (snd (Backup testEnv testCfg)) \<and>
   EgWait \<in> set (snd (Backup testEnv testCfg)) \<and>
   happens_before DumpWait EgWait (snd (Backup testEnv testCfg)) \<and>
   \<not> happens_before EgWait DumpWait (snd (Backup testEnv testCfg))"
  using producer_awaited_before_join by blast

section \<open>A manifest that cannot be written does not fail the backup\<close>





section \<open>A backup that fails on its window settings notifies success\<close>

text \<open>
  Claim C4 at the inputs where the code departs from it. Every path of \<^verbatim>\<open>Backup\<close> that
  returns an error sets \<^verbatim>\<open>opErr\<close> first, except the one taken when \<^verbatim>\<open>InWindow\<close>
  itself returns an error: with a window start of \<^verbatim>\<open>25:00\<close>, or with a time zone that
  cannot be loaded, \<^verbatim>\<open>Backup\<close> returns the error and its one notification carries the
  status \<^verbatim>\<open>success\<close> and no error text. A window miss, by contrast, is notified as
  \<^verbatim>\<open>failed\<close>.
\<close>

theorem window_error_notified_as_success:
  "Backup testEnv (testCfg\<lparr>Schedule_WindowStart := ''25:00''\<rparr>) =
     (Inl (Error (''invalid window start: parsing time '' @ [CHR 0x22] @ ''25:00'' @ [CHR 0x22] @
                 '': hour out of range'')),
      [TryLock ''/tmp/dbu.lock'', Release,
       Notify \<lparr>Event_Type = ''backup'', Event_Message = ''backup appdb'',
         Event_Status = ''success'', Event_Database = ''appdb'', Event_DBType = ''postgres'',
         Event_StartedAt = 1704103200000000000, Event_EndedAt = 1704103202000000000,
         Event_Duration = ''2s'', Event_Key = [], Event_Error = []\<rparr>]) \<and>
   Backup testEnv (testCfg\<lparr>Schedule_WindowStart := ''09:00'', Schedule_Timezone := ''Mars/Olympus''\<rparr>) =
     (Inl (Error ''invalid timezone: unknown time zone Mars/Olympus''),
      [TryLock ''/tmp/dbu.lock'', Release,
       Notify \<lparr>Event_Type = ''backup'', Event_Message = ''backup appdb'',
         Event_Status = ''success'', Event_Database = ''appdb'', Event_DBType = ''postgres'',
         Event_StartedAt = 1704103200000000000, Event_EndedAt = 1704103202000000000,
         Event_Duration = ''2s'', Event_Key = [], Event_Error = []\<rparr>]) \<and>
   Backup testEnv (testCfg\<lparr>Schedule_WindowStart := ''09:00'', Schedule_WindowEnd := ''09:30''\<rparr>) =
     (Inl (Error ''current time is outside configured backup window''),
      [TryLock ''/tmp/dbu.lock'', Release,
       Notify \<lparr>Event_Type = ''backup'', Event_Message = ''backup appdb'',
         Event_Status = ''failed'', Event_Database = ''appdb'', Event_DBType = ''postgres'',
         Event_StartedAt = 1704103200000000000, Event_EndedAt = 1704103202000000000,
         Event_Duration = ''2s'', Event_Key = [],
         Event_Error = ''current time is outside configured backup window''\<rparr>])"
  by (simp add: app_defs test_defs eval_simps)

theorem window_error_notified_as_success_witness:
  "(\<exists>err. fst (Backup testEnv (testCfg\<lparr>Schedule_WindowStart := ''25:00''\<rparr>)) = Inl err) \<and>
   (\<exists>event. filter is_notify (snd (Backup testEnv (testCfg\<lparr>Schedule_WindowStart := ''25:00''\<rparr>))) =
       [Notify event] \<and> Event_Status event = ''success'')"
  using window_error_notified_as_success by (simp add: is_notify_simps)


section \<open>The write side encrypts first and compresses the ciphertext\<close>

text \<open>
  Claim C1 at the input where the code departs from it. With gzip compression and
  encryption both selected, the encrypting writer is wrapped around the compressing
  writer, so that the dump is encrypted first and the ciphertext is compressed: the bytes
  handed to the storage sink for the dump \<^verbatim>\<open>01 02 03\<close> are the gzip form of the sealed
  dump, not the sealed form of the gzip dump. The read side does what the claim says: it
  decrypts and then decompresses, which decodes the sealed gzip form and fails on what the
  write side stored.
\<close>

theorem backup_compresses_ciphertext:
  "encodeTask testEnv
     (testCfg\<lparr>Backup_Compression := ''gzip'', Backup_Encryption := True,
              Backup_EncryptionKey := testKey\<rparr>) (Inr [1, 2, 3]) =
     Inr [0x1f, 0x8b, 0x20, 0x2b, 0x28, 0x29] \<and>
   testGzip (testSeal (replicate 32 0x2a) [1, 2, 3]) = [0x1f, 0x8b, 0x20, 0x2b, 0x28, 0x29] \<and>
   testSeal (replicate 32 0x2a) (testGzip [1, 2, 3]) = [0x20, 0x35, 0xa1, 0x2b, 0x28, 0x29] \<and>
   GoSink ''backups/postgres/appdb/20240101T100000Z_full.backup.gz.enc''
       (Inr [0x1f, 0x8b, 0x20, 0x2b, 0x28, 0x29])
     \<in> set (snd (Backup testEnv
         (testCfg\<lparr>Backup_Compression := ''gzip'', Backup_Encryption := True,
                  Backup_EncryptionKey := testKey\<rparr>))) \<and>
   decodeChain testEnv
     (testCfg\<lparr>Backup_Compression := ''gzip'', Backup_Encryption := True,
              Backup_EncryptionKey := testKey\<rparr>) emptyManifest
     (Inr [0x20, 0x35, 0xa1, 0x2b, 0x28, 0x29]) = Inr (Inr [1, 2, 3]) \<and>
   decodeChain testEnv
     (testCfg\<lparr>Backup_Compression := ''gzip'', Backup_Encryption := True,
              Backup_EncryptionKey := testKey\<rparr>) emptyManifest
     (Inr [0x1f, 0x8b, 0x20, 0x2b, 0x28, 0x29]) = Inl (Error ''sio: malformed encrypted data'')"
  by (simp add: app_defs test_defs eval_simps HasPrefix_def)

theorem backup_compresses_ciphertext_witness:
  "encodeTask testEnv
     (testCfg\<lparr>Backup_Compression := ''gzip'', Backup_Encryption := True,
              Backup_EncryptionKey := testKey\<rparr>) (Inr [1, 2, 3]) =
     Inr (testGzip (testSeal (replicate 32 0x2a) [1, 2, 3])) \<and>
   encodeTask testEnv
     (testCfg\<lparr>Backup_Compression := ''gzip'', Backup_Encryption := True,
              Backup_EncryptionKey := testKey\<rparr>) (Inr [1, 2, 3]) \<noteq>
     Inr (testSeal (replicate 32 0x2a) (testGzip [1, 2, 3]))"
  using backup_compresses_ciphertext by simp


section \<open>The round trip fails when both transforms are selected\<close>

text \<open>
  Claim C2 at the input where the code departs from it. With codecs that meet their
  contract, the dump \<^verbatim>\<open>01 02 03\<close> comes back through the write side and the read side
  with no transform, with compression only and with encryption only; with compression and
  encryption both selected the read side ends with an error, for this dump and for the
  empty one, and so does \<^verbatim>\<open>Restore\<close> on the bytes that \<^verbatim>\<open>Backup\<close> stored.
\<close>

theorem round_trip_fails_with_both_transforms:
  "codec_contract testEnv \<and>
   roundTrip testEnv testCfg emptyManifest [1, 2, 3] = Inr [1, 2, 3] \<and>
   roundTrip testEnv (testCfg\<lparr>Backup_Compression := ''gzip''\<rparr>) emptyManifest [1, 2, 3] =
     Inr [1, 2, 3] \<and>
   roundTrip testEnv (testCfg\<lparr>Backup_Encryption := True, Backup_EncryptionKey := testKey\<rparr>)
     emptyManifest [1, 2, 3] = Inr [1, 2, 3] \<and>
   roundTrip testEnv
     (testCfg\<lparr>Backup_Compression := ''gzip'', Backup_Encryption := True,
              Backup_EncryptionKey := testKey\<rparr>) emptyManifest [1, 2, 3] =
     Inl (Error ''sio: malformed encrypted data'') \<and>
   roundTrip testEnv
     (testCfg\<lparr>Backup_Compression := ''gzip'', Backup_Encryption := True,
              Backup_EncryptionKey := testKey\<rparr>) emptyManifest [] =
     Inl (Error ''sio: malformed encrypted data'') \<and>
   fst (Restore
     (testEnv\<lparr>storage_Get :=
        (\<lambda>key. if IsManifestKey key then Inl (Error ''object not found'')
                else Inr (Inr [0x1f, 0x8b, 0x20, 0x2b, 0x28, 0x29]))\<rparr>)
     (testCfg\<lparr>Backup_Compression := ''gzip'', Backup_Encryption := True,
              Backup_EncryptionKey := testKey\<rparr>)
     ''backups/postgres/appdb/20240101T100000Z_full.backup.gz.enc'') =
     Some (Error ''sio: malformed encrypted data'')"
proof -
  have 1: "roundTrip testEnv testCfg emptyManifest [1, 2, 3] = Inr [1, 2, 3]"
    by (simp add: roundTrip_def app_defs test_defs eval_simps)
  have 2: "roundTrip testEnv (testCfg\<lparr>Backup_Compression := ''gzip''\<rparr>) emptyManifest [1, 2, 3] =
     Inr [1, 2, 3]"
    by (simp add: roundTrip_def app_defs test_defs eval_simps)
  have 3: "roundTrip testEnv (testCfg\<lparr>Backup_Encryption := True, Backup_EncryptionKey := testKey\<rparr>)
     emptyManifest [1, 2, 3] = Inr [1, 2, 3]"
    by (simp add: roundTrip_def app_defs test_defs eval_simps)
  have 4: "roundTrip testEnv
     (testCfg\<lparr>Backup_Compression := ''gzip'', Backup_Encryption := True,
              Backup_EncryptionKey := testKey\<rparr>) emptyManifest [1, 2, 3] =
     Inl (Error ''sio: malformed encrypted data'')"
    by (simp add: roundTrip_def app_defs test_defs eval_simps)
  have 5: "roundTrip testEnv
     (testCfg\<lparr>Backup_Compression := ''gzip'', Backup_Encryption := True,
              Backup_EncryptionKey := testKey\<rparr>) emptyManifest [] =
     Inl (Error ''sio: malformed encrypted data'')"
    by (simp add: roundTrip_def app_defs test_defs eval_simps)
  have 6: "fst (Restore
     (testEnv\<lparr>storage_Get :=
        (\<lambda>key. if IsManifestKey key then Inl (Error ''object not found'')
                else Inr (Inr [0x1f, 0x8b, 0x20, 0x2b, 0x28, 0x29]))\<rparr>)
     (testCfg\<lparr>Backup_Compression := ''gzip'', Backup_Encryption := True,
              Backup_EncryptionKey := testKey\<rparr>)
     ''backups/postgres/appdb/20240101T100000Z_full.backup.gz.enc'') =
     Some (Error ''sio: malformed encrypted data'')"
    by (simp add: app_defs test_defs eval_simps)
  from testEnv_contract 1 2 3 4 5 6 show ?thesis by (intro conjI)
qed

theorem round_trip_fails_with_both_transforms_witness:
  "roundTrip testEnv
     (testCfg\<lparr>Backup_Compression := ''gzip'', Backup_Encryption := True,
              Backup_EncryptionKey := testKey\<rparr>) emptyManifest [1, 2, 3] \<noteq> Inr [1, 2, 3]"
  using round_trip_fails_with_both_transforms by simp


end
